theory Spec2Isabelle
  imports Main "HOL-Library.Word"
begin

section \<open>The host: strings, JSON, key-value storage\<close>

text \<open>
  The three scripts (\<^verbatim>\<open>src/script.js\<close>, \<^verbatim>\<open>src/unnamed/part_000\<close>,
  \<^verbatim>\<open>src/unnamed/part_001\<close>) run in a browser. What they use of it is modelled here:
  strings as sequences of UTF-16 code units, \<^verbatim>\<open>String.prototype.trim\<close>,
  \<^verbatim>\<open>JSON.parse\<close>, \<^verbatim>\<open>JSON.stringify\<close> on arrays of strings, and
  \<^verbatim>\<open>localStorage\<close> as a map from keys to string values.
\<close>

subsection \<open>Strings\<close>

type_synonym code_unit = "16 word"
type_synonym jsstring = "code_unit list"

text \<open>A source literal written in ASCII, as the string of its code units.\<close>

definition js :: "string \<Rightarrow> jsstring" where
  "js s = map (\<lambda>c. of_nat (of_char c)) s"

text \<open>
  \<^verbatim>\<open>trim\<close> removes leading and trailing WhiteSpace and LineTerminator code points
  (ECMAScript, sections 12.2 and 12.3). All of them are single code units.
\<close>

definition is_white_space :: "code_unit \<Rightarrow> bool" where
  "is_white_space c \<longleftrightarrow>
     c = 0x0009 \<or> c = 0x000A \<or> c = 0x000B \<or> c = 0x000C \<or> c = 0x000D \<or> c = 0x0020 \<or>
     c = 0x00A0 \<or> c = 0x1680 \<or> (0x2000 \<le> c \<and> c \<le> 0x200A) \<or> c = 0x2028 \<or>
     c = 0x2029 \<or> c = 0x202F \<or> c = 0x205F \<or> c = 0x3000 \<or> c = 0xFEFF"

definition trim :: "jsstring \<Rightarrow> jsstring" where
  "trim s = rev (dropWhile is_white_space (rev (dropWhile is_white_space s)))"

subsection \<open>JSON values and errors\<close>

text \<open>
  A number is kept as the text of its literal: its value is a double, which this
  development does not model.
\<close>

datatype json =
    JNull
  | JBool bool
  | JNum jsstring
  | JStr jsstring
  | JArr "json list"
  | JObj "(jsstring \<times> json) list"

datatype js_error = SyntaxError | TypeError

subsection \<open>\<^verbatim>\<open>JSON.parse\<close>: the lexer\<close>

datatype token =
    TLBracket | TRBracket | TLBrace | TRBrace | TComma | TColon
  | TString jsstring | TNumber jsstring | TTrue | TFalse | TNull

definition is_json_ws :: "code_unit \<Rightarrow> bool" where
  "is_json_ws c \<longleftrightarrow> c = 0x09 \<or> c = 0x0A \<or> c = 0x0D \<or> c = 0x20"

definition is_digit :: "code_unit \<Rightarrow> bool" where
  "is_digit c \<longleftrightarrow> 0x30 \<le> c \<and> c \<le> 0x39"

text \<open>The value of a hexadecimal digit, in either case.\<close>

definition hex_value :: "code_unit \<Rightarrow> nat option" where
  "hex_value c =
     (if 0x30 \<le> c \<and> c \<le> 0x39 then Some (unat c - 0x30)
      else if 0x41 \<le> c \<and> c \<le> 0x46 then Some (unat c - 0x41 + 10)
      else if 0x61 \<le> c \<and> c \<le> 0x66 then Some (unat c - 0x61 + 10)
      else None)"

definition hex4_value :: "code_unit \<Rightarrow> code_unit \<Rightarrow> code_unit \<Rightarrow> code_unit \<Rightarrow> code_unit option" where
  "hex4_value a b c d =
     (case (hex_value a, hex_value b, hex_value c, hex_value d) of
        (Some x3, Some x2, Some x1, Some x0) \<Rightarrow> Some (of_nat (4096 * x3 + 256 * x2 + 16 * x1 + x0))
      | _ \<Rightarrow> None)"

text \<open>The character a one-letter escape \<^verbatim>\<open>\\x\<close> stands for.\<close>

definition unescape :: "code_unit \<Rightarrow> code_unit option" where
  "unescape e =
     (if e = 0x22 then Some 0x22
      else if e = 0x5C then Some 0x5C
      else if e = 0x2F then Some 0x2F
      else if e = 0x62 then Some 0x08
      else if e = 0x66 then Some 0x0C
      else if e = 0x6E then Some 0x0A
      else if e = 0x72 then Some 0x0D
      else if e = 0x74 then Some 0x09
      else None)"

definition prepend :: "code_unit \<Rightarrow> (jsstring \<times> jsstring) option \<Rightarrow> (jsstring \<times> jsstring) option" where
  "prepend c r = (case r of None \<Rightarrow> None | Some (s, rest) \<Rightarrow> Some (c # s, rest))"

text \<open>
  The characters of a string literal after its opening quote: the string denoted and
  the input after the closing quote.
\<close>

fun lex_string :: "jsstring \<Rightarrow> (jsstring \<times> jsstring) option" where
  "lex_string [] = None"
| "lex_string (c # cs) =
     (if c = 0x22 then Some ([], cs)
      else if c = 0x5C then
        (case cs of
           [] \<Rightarrow> None
         | e # cs1 \<Rightarrow>
             if e = 0x75 then
               (case cs1 of
                  h1 # h2 # h3 # h4 # cs2 \<Rightarrow>
                    (case hex4_value h1 h2 h3 h4 of
                       None \<Rightarrow> None
                     | Some u \<Rightarrow> prepend u (lex_string cs2))
                | _ \<Rightarrow> None)
             else
               (case unescape e of
                  None \<Rightarrow> None
                | Some u \<Rightarrow> prepend u (lex_string cs1)))
      else if c < 0x20 then None
      else prepend c (lex_string cs))"

text \<open>
  A number literal: \<^verbatim>\<open>-? (0 | [1-9][0-9]*) (. [0-9]+)? ([eE] [+-]? [0-9]+)?\<close>.
  Each part returns its text and the input after it.
\<close>

definition lex_sign :: "jsstring \<Rightarrow> jsstring \<times> jsstring" where
  "lex_sign cs = (case cs of c # r \<Rightarrow> if c = 0x2D then ([c], r) else ([], cs) | [] \<Rightarrow> ([], cs))"

definition lex_int :: "jsstring \<Rightarrow> (jsstring \<times> jsstring) option" where
  "lex_int cs =
     (case cs of
        [] \<Rightarrow> None
      | d # r \<Rightarrow>
          if d = 0x30 then Some ([d], r)
          else if is_digit d then Some (d # takeWhile is_digit r, dropWhile is_digit r)
          else None)"

definition lex_digits1 :: "jsstring \<Rightarrow> (jsstring \<times> jsstring) option" where
  "lex_digits1 cs =
     (if takeWhile is_digit cs = [] then None
      else Some (takeWhile is_digit cs, dropWhile is_digit cs))"

definition lex_frac :: "jsstring \<Rightarrow> (jsstring \<times> jsstring) option" where
  "lex_frac cs =
     (case cs of
        c # r \<Rightarrow>
          if c = 0x2E then
            (case lex_digits1 r of None \<Rightarrow> None | Some (ds, rest) \<Rightarrow> Some (c # ds, rest))
          else Some ([], cs)
      | [] \<Rightarrow> Some ([], cs))"

definition lex_exp_sign :: "jsstring \<Rightarrow> jsstring \<times> jsstring" where
  "lex_exp_sign cs =
     (case cs of
        c # r \<Rightarrow> if c = 0x2B \<or> c = 0x2D then ([c], r) else ([], cs)
      | [] \<Rightarrow> ([], cs))"

definition lex_exp :: "jsstring \<Rightarrow> (jsstring \<times> jsstring) option" where
  "lex_exp cs =
     (case cs of
        c # r \<Rightarrow>
          if c = 0x65 \<or> c = 0x45 then
            (case lex_exp_sign r of
               (sg, r1) \<Rightarrow>
                 (case lex_digits1 r1 of
                    None \<Rightarrow> None
                  | Some (ds, rest) \<Rightarrow> Some (c # sg @ ds, rest)))
          else Some ([], cs)
      | [] \<Rightarrow> Some ([], cs))"

definition lex_number :: "jsstring \<Rightarrow> (jsstring \<times> jsstring) option" where
  "lex_number cs =
     (case lex_sign cs of
        (sg, r0) \<Rightarrow>
          (case lex_int r0 of
             None \<Rightarrow> None
           | Some (ip, r1) \<Rightarrow>
               (case lex_frac r1 of
                  None \<Rightarrow> None
                | Some (fp, r2) \<Rightarrow>
                    (case lex_exp r2 of
                       None \<Rightarrow> None
                     | Some (ep, r3) \<Rightarrow> Some (sg @ ip @ fp @ ep, r3)))))"

definition cons_token :: "token \<Rightarrow> token list option \<Rightarrow> token list option" where
  "cons_token t r = map_option ((#) t) r"

lemma prepend_length:
  "prepend c r = Some (s, rest) \<Longrightarrow> \<exists>s'. r = Some (s', rest)"
  by (auto simp: prepend_def split: option.splits)

lemma lex_string_length:
  "lex_string cs = Some (s, rest) \<Longrightarrow> length rest < length cs"
proof (induction cs arbitrary: s rule: lex_string.induct)
  case 1
  then show ?case by simp
next
  case (2 c cs)
  show ?case
  proof (cases "c = 0x22")
    case True
    with "2.prems" show ?thesis by simp
  next
    case nq: False
    show ?thesis
    proof (cases "c = 0x5C")
      case bs: True
      show ?thesis
      proof (cases cs)
        case Nil
        with "2.prems" nq bs show ?thesis by simp
      next
        case (Cons e cs1)
        show ?thesis
        proof (cases "e = 0x75")
          case u: True
          from "2.prems" nq bs Cons u obtain h1 h2 h3 h4 cs2 v s'
            where cs1: "cs1 = h1 # h2 # h3 # h4 # cs2"
              and hv: "hex4_value h1 h2 h3 h4 = Some v"
              and r: "lex_string cs2 = Some (s', rest)"
            by (auto split: list.splits option.splits dest: prepend_length)
          from "2.IH"(1)[OF nq bs Cons u cs1 refl refl refl hv r] have "length rest < length cs2" .
          with Cons cs1 show ?thesis by simp
        next
          case nu: False
          from "2.prems" nq bs Cons nu obtain v s'
            where ue: "unescape e = Some v" and r: "lex_string cs1 = Some (s', rest)"
            by (auto split: option.splits dest: prepend_length)
          from "2.IH"(2)[OF nq bs Cons nu ue r] have "length rest < length cs1" .
          with Cons show ?thesis by simp
        qed
      qed
    next
      case nbs: False
      from "2.prems" nq nbs have lo: "\<not> c < 0x20"
        by (auto split: if_splits)
      from "2.prems" nq nbs lo obtain s' where r: "lex_string cs = Some (s', rest)"
        by (auto dest: prepend_length)
      from "2.IH"(3)[OF nq nbs lo r] show ?thesis by simp
    qed
  qed
qed

lemma lex_digits1_length: "lex_digits1 cs = Some (ds, rest) \<Longrightarrow> length rest \<le> length cs"
  by (auto simp: lex_digits1_def length_dropWhile_le split: if_splits)

lemma lex_number_length:
  "lex_number cs = Some (n, rest) \<Longrightarrow> length rest < length cs"
proof -
  assume a: "lex_number cs = Some (n, rest)"
  obtain sg r0 where sg: "lex_sign cs = (sg, r0)" by (cases "lex_sign cs")
  from a sg obtain ip r1 where ip: "lex_int r0 = Some (ip, r1)"
    by (auto simp: lex_number_def split: option.splits)
  from a sg ip obtain fp r2 where fp: "lex_frac r1 = Some (fp, r2)"
    by (auto simp: lex_number_def split: option.splits)
  from a sg ip fp obtain ep where ep: "lex_exp r2 = Some (ep, rest)"
    by (auto simp: lex_number_def split: option.splits)
  from sg have l0: "length r0 \<le> length cs"
    by (auto simp: lex_sign_def split: list.splits if_splits)
  from ip have l1: "length r1 < length r0"
    by (auto simp: lex_int_def length_dropWhile_le less_Suc_eq_le split: list.splits if_splits)
  from fp have l2: "length r2 \<le> length r1"
    by (auto simp: lex_frac_def split: list.splits if_splits option.splits
        dest!: lex_digits1_length)
  from ep have l3: "length rest \<le> length r2"
    by (auto simp: lex_exp_def lex_exp_sign_def split: list.splits if_splits option.splits
        dest!: lex_digits1_length)
  from l0 l1 l2 l3 show ?thesis by simp
qed

text \<open>The whole input as tokens; \<open>None\<close> where no token starts.\<close>

function lex :: "jsstring \<Rightarrow> token list option" where
  "lex [] = Some []"
| "lex (c # cs) =
     (if is_json_ws c then lex cs
      else if c = 0x5B then cons_token TLBracket (lex cs)
      else if c = 0x5D then cons_token TRBracket (lex cs)
      else if c = 0x7B then cons_token TLBrace (lex cs)
      else if c = 0x7D then cons_token TRBrace (lex cs)
      else if c = 0x2C then cons_token TComma (lex cs)
      else if c = 0x3A then cons_token TColon (lex cs)
      else if c = 0x22 then
        (case lex_string cs of
           None \<Rightarrow> None
         | Some (s, rest) \<Rightarrow> cons_token (TString s) (lex rest))
      else if c = 0x2D \<or> is_digit c then
        (case lex_number (c # cs) of
           None \<Rightarrow> None
         | Some (n, rest) \<Rightarrow> cons_token (TNumber n) (lex rest))
      else if take 4 (c # cs) = js ''true'' then cons_token TTrue (lex (drop 3 cs))
      else if take 5 (c # cs) = js ''false'' then cons_token TFalse (lex (drop 4 cs))
      else if take 4 (c # cs) = js ''null'' then cons_token TNull (lex (drop 3 cs))
      else None)"
  by pat_completeness auto
termination
proof (relation "measure length")
  show "wf (measure length)" by simp
qed (auto dest: lex_string_length lex_number_length)

subsection \<open>\<^verbatim>\<open>JSON.parse\<close>: the parser\<close>

text \<open>
  The tokens are read by a pushdown automaton, one token per step. A frame is an array
  or object under construction (its parts in reverse order); \<open>InMember kvs k\<close> is an
  object whose member \<open>k\<close> waits for its value. The mode says what may come next.
  The members of an object are kept in source order.
\<close>

datatype frame =
    InArray "json list"
  | InObject "(jsstring \<times> json) list"
  | InMember "(jsstring \<times> json) list" jsstring

datatype mode =
    Value | FirstElement | AfterElement | FirstKey | NextKey | Colon jsstring | AfterMember
  | Finished json

type_synonym parser = "frame list \<times> mode"

text \<open>A complete value goes to the enclosing frame, or is the result.\<close>

fun deliver :: "json \<Rightarrow> frame list \<Rightarrow> parser option" where
  "deliver v [] = Some ([], Finished v)"
| "deliver v (InArray acc # st) = Some (InArray (v # acc) # st, AfterElement)"
| "deliver v (InMember kvs k # st) = Some (InObject ((k, v) # kvs) # st, AfterMember)"
| "deliver v (InObject kvs # st) = None"

definition wants_value :: "mode \<Rightarrow> bool" where
  "wants_value m \<longleftrightarrow> m = Value \<or> m = FirstElement"

fun close_array :: "frame list \<Rightarrow> parser option" where
  "close_array (InArray acc # st) = deliver (JArr (rev acc)) st"
| "close_array _ = None"

fun close_object :: "frame list \<Rightarrow> parser option" where
  "close_object (InObject kvs # st) = deliver (JObj (rev kvs)) st"
| "close_object _ = None"

fun open_member :: "jsstring \<Rightarrow> frame list \<Rightarrow> parser option" where
  "open_member k (InObject kvs # st) = Some (InMember kvs k # st, Value)"
| "open_member k _ = None"

fun step :: "token \<Rightarrow> parser \<Rightarrow> parser option" where
  "step TNull (st, m) = (if wants_value m then deliver JNull st else None)"
| "step TTrue (st, m) = (if wants_value m then deliver (JBool True) st else None)"
| "step TFalse (st, m) = (if wants_value m then deliver (JBool False) st else None)"
| "step (TNumber n) (st, m) = (if wants_value m then deliver (JNum n) st else None)"
| "step (TString s) (st, m) =
     (if wants_value m then deliver (JStr s) st
      else if m = FirstKey \<or> m = NextKey then Some (st, Colon s)
      else None)"
| "step TLBracket (st, m) =
     (if wants_value m then Some (InArray [] # st, FirstElement) else None)"
| "step TLBrace (st, m) =
     (if wants_value m then Some (InObject [] # st, FirstKey) else None)"
| "step TRBracket (st, m) =
     (if m = FirstElement \<or> m = AfterElement then close_array st else None)"
| "step TRBrace (st, m) =
     (if m = FirstKey \<or> m = AfterMember then close_object st else None)"
| "step TComma (st, m) =
     (if m = AfterElement then Some (st, Value)
      else if m = AfterMember then Some (st, NextKey)
      else None)"
| "step TColon (st, m) = (case m of Colon k \<Rightarrow> open_member k st | _ \<Rightarrow> None)"

fun steps :: "token list \<Rightarrow> parser \<Rightarrow> parser option" where
  "steps [] p = Some p"
| "steps (t # ts) p = (case step t p of None \<Rightarrow> None | Some p' \<Rightarrow> steps ts p')"

text \<open>
  \<^verbatim>\<open>JSON.parse(text)\<close>: the value, or the SyntaxError it throws. The text must be one
  value, with nothing but white space around it.
\<close>

definition JSON_parse :: "jsstring \<Rightarrow> js_error + json" where
  "JSON_parse text =
     (case lex text of
        None \<Rightarrow> Inl SyntaxError
      | Some ts \<Rightarrow>
          (case steps ts ([], Value) of
             Some ([], Finished v) \<Rightarrow> Inr v
           | _ \<Rightarrow> Inl SyntaxError))"

subsection \<open>\<^verbatim>\<open>JSON.stringify\<close> on an array of strings\<close>

text \<open>
  QuoteJSONString (ECMAScript, section 25.5.2.3) goes through the code points of the
  string: a surrogate pair is copied, a lone surrogate and a control character are
  written as \<^verbatim>\<open>\\uXXXX\<close> with lower-case digits, the quote, the backslash and five
  control characters have a short escape, and every other character is copied.
\<close>

definition is_lead :: "code_unit \<Rightarrow> bool" where
  "is_lead c \<longleftrightarrow> 0xD800 \<le> c \<and> c \<le> 0xDBFF"

definition is_trail :: "code_unit \<Rightarrow> bool" where
  "is_trail c \<longleftrightarrow> 0xDC00 \<le> c \<and> c \<le> 0xDFFF"

definition hex_digit :: "nat \<Rightarrow> code_unit" where
  "hex_digit n = (if n < 10 then of_nat (0x30 + n) else of_nat (0x61 + (n - 10)))"

definition hex4 :: "code_unit \<Rightarrow> jsstring" where
  "hex4 c =
     [hex_digit (unat c div 4096), hex_digit (unat c div 256 mod 16),
      hex_digit (unat c div 16 mod 16), hex_digit (unat c mod 16)]"

definition escape_unit :: "code_unit \<Rightarrow> jsstring" where
  "escape_unit c =
     (if c = 0x08 then [0x5C, 0x62]
      else if c = 0x09 then [0x5C, 0x74]
      else if c = 0x0A then [0x5C, 0x6E]
      else if c = 0x0C then [0x5C, 0x66]
      else if c = 0x0D then [0x5C, 0x72]
      else if c = 0x22 then [0x5C, 0x22]
      else if c = 0x5C then [0x5C, 0x5C]
      else if c < 0x20 \<or> is_lead c \<or> is_trail c then [0x5C, 0x75] @ hex4 c
      else [c])"

fun quote_body :: "jsstring \<Rightarrow> jsstring" where
  "quote_body [] = []"
| "quote_body [c] = escape_unit c"
| "quote_body (c # d # cs) =
     (if is_lead c \<and> is_trail d then c # d # quote_body cs
      else escape_unit c @ quote_body (d # cs))"

definition QuoteJSONString :: "jsstring \<Rightarrow> jsstring" where
  "QuoteJSONString s = [0x22] @ quote_body s @ [0x22]"

fun join_comma :: "jsstring list \<Rightarrow> jsstring" where
  "join_comma [] = []"
| "join_comma [x] = x"
| "join_comma (x # y # ys) = x @ [0x2C] @ join_comma (y # ys)"

text \<open>\<^verbatim>\<open>JSON.stringify(a)\<close> for an array \<open>a\<close> of strings, without indentation.\<close>

definition JSON_stringify :: "jsstring list \<Rightarrow> jsstring" where
  "JSON_stringify a = [0x5B] @ join_comma (map QuoteJSONString a) @ [0x5D]"

text \<open>The tokens of \<^verbatim>\<open>JSON.stringify\<close>'s output for an array of strings, less the brackets.\<close>

fun comma_tokens :: "jsstring list \<Rightarrow> token list" where
  "comma_tokens [] = []"
| "comma_tokens [x] = [TString x]"
| "comma_tokens (x # y # ys) = TString x # TComma # comma_tokens (y # ys)"

section \<open>The page\<close>

text \<open>
  What the scripts read and write: \<^verbatim>\<open>localStorage\<close>, the \<^verbatim>\<open><li>\<close> children of
  \<^verbatim>\<open>#task-list\<close> in document order, the value of \<^verbatim>\<open>#task-input\<close>, the messages shown
  to the user so far, and whether the listeners of the Add button and of the input have
  been registered.

  An \<^verbatim>\<open><li>\<close> is represented by the constant \<^verbatim>\<open>taskText\<close> of the \<^verbatim>\<open>addTask\<close> call
  that made it: it is both the text of the element and the text its Remove button's
  handler has captured. The element's identity is its position in the list.
\<close>

datatype feedback =
    Alert jsstring
  | MessageBox jsstring jsstring

record page =
  localStorage :: "jsstring \<rightharpoonup> jsstring"
  taskList :: "jsstring list"
  taskInput :: jsstring
  shown :: "feedback list"
  listening :: bool

text \<open>
  A call returns, or throws and leaves the page as it is at that point, or leaves what
  is modelled here (a stored array with an element that is not a string).
\<close>

datatype outcome = Returns page | Throws js_error page | Unmodelled

definition getItem :: "jsstring \<Rightarrow> page \<Rightarrow> jsstring option" where
  "getItem key p = localStorage p key"

text \<open>The store is taken to have room: \<^verbatim>\<open>setItem\<close> does not throw.\<close>

definition setItem :: "jsstring \<Rightarrow> jsstring \<Rightarrow> page \<Rightarrow> page" where
  "setItem key v p = p\<lparr>localStorage := (localStorage p)(key \<mapsto> v)\<rparr>"

text \<open>\<^verbatim>\<open>x || d\<close> for \<open>x\<close> a string or \<^verbatim>\<open>null\<close>: \<^verbatim>\<open>null\<close> and the empty string are falsy.\<close>

definition or_else :: "jsstring option \<Rightarrow> jsstring \<Rightarrow> jsstring" where
  "or_else x d = (case x of None \<Rightarrow> d | Some s \<Rightarrow> if s = [] then d else s)"

text \<open>
  \<^verbatim>\<open>JSON.parse(localStorage.getItem('tasks') || '[]')\<close>, as every function of every
  variant reads the store.
\<close>

definition stored_tasks :: "page \<Rightarrow> js_error + json" where
  "stored_tasks p = JSON_parse (or_else (getItem (js ''tasks'') p) (js ''[]''))"

fun strings_of :: "json list \<Rightarrow> jsstring list option" where
  "strings_of [] = Some []"
| "strings_of (JStr s # vs) = map_option ((#) s) (strings_of vs)"
| "strings_of (_ # vs) = None"

text \<open>
  The parsed value as the receiver of \<^verbatim>\<open>forEach\<close>, \<^verbatim>\<open>push\<close> or \<^verbatim>\<open>filter\<close>, which
  each function calls on it at once: an array of strings, or the error thrown (the
  SyntaxError of the parse, or the TypeError of calling an array method on a value
  that has none), or an array with other elements.
\<close>

datatype receiver = Array "jsstring list" | Fails js_error | OtherArray

definition tasks_array :: "page \<Rightarrow> receiver" where
  "tasks_array p =
     (case stored_tasks p of
        Inl e \<Rightarrow> Fails e
      | Inr (JArr vs) \<Rightarrow> (case strings_of vs of Some tasks \<Rightarrow> Array tasks | None \<Rightarrow> OtherArray)
      | Inr _ \<Rightarrow> Fails TypeError)"

text \<open>\<^verbatim>\<open>tasks.forEach(f)\<close>, for \<open>f\<close> acting on the page.\<close>

fun forEach :: "(jsstring \<Rightarrow> page \<Rightarrow> outcome) \<Rightarrow> jsstring list \<Rightarrow> page \<Rightarrow> outcome" where
  "forEach f [] p = Returns p"
| "forEach f (x # xs) p =
     (case f x p of Returns p' \<Rightarrow> forEach f xs p' | Throws e p' \<Rightarrow> Throws e p' | Unmodelled \<Rightarrow> Unmodelled)"

definition appendChild :: "jsstring \<Rightarrow> page \<Rightarrow> page" where
  "appendChild li p = p\<lparr>taskList := taskList p @ [li]\<rparr>"

text \<open>\<^verbatim>\<open>taskList.removeChild(li)\<close> for the \<open>i\<close>-th child.\<close>

definition removeChild :: "nat \<Rightarrow> page \<Rightarrow> page" where
  "removeChild i p = p\<lparr>taskList := take i (taskList p) @ drop (Suc i) (taskList p)\<rparr>"

definition alert :: "jsstring \<Rightarrow> page \<Rightarrow> page" where
  "alert message p = p\<lparr>shown := shown p @ [Alert message]\<rparr>"

section \<open>\<^verbatim>\<open>src/script.js\<close>\<close>

definition saveTaskToLocalStorage :: "jsstring \<Rightarrow> page \<Rightarrow> outcome" where
  "saveTaskToLocalStorage taskText p =
     (case tasks_array p of
        Array tasks \<Rightarrow> Returns (setItem (js ''tasks'') (JSON_stringify (tasks @ [taskText])) p)
      | Fails e \<Rightarrow> Throws e p
      | OtherArray \<Rightarrow> Unmodelled)"

definition removeTaskFromLocalStorage :: "jsstring \<Rightarrow> page \<Rightarrow> outcome" where
  "removeTaskFromLocalStorage taskText p =
     (case tasks_array p of
        Array tasks \<Rightarrow>
          Returns (setItem (js ''tasks'')
            (JSON_stringify (filter (\<lambda>task. task \<noteq> taskText) tasks)) p)
      | Fails e \<Rightarrow> Throws e p
      | OtherArray \<Rightarrow> Unmodelled)"

definition addTask :: "jsstring \<Rightarrow> bool \<Rightarrow> page \<Rightarrow> outcome" where
  "addTask taskText save p =
     (let p1 = appendChild taskText p
      in if save then saveTaskToLocalStorage taskText p1 else Returns p1)"

text \<open>The handler \<^verbatim>\<open>removeBtn.onclick\<close> of the \<open>i\<close>-th entry; there is none beyond the list.\<close>

definition removeBtn_onclick :: "nat \<Rightarrow> page \<Rightarrow> outcome" where
  "removeBtn_onclick i p =
     (if i < length (taskList p)
      then removeTaskFromLocalStorage (taskList p ! i) (removeChild i p)
      else Returns p)"

definition loadTasks :: "page \<Rightarrow> outcome" where
  "loadTasks p =
     (case tasks_array p of
        Array tasks \<Rightarrow> forEach (\<lambda>taskText. addTask taskText False) tasks p
      | Fails e \<Rightarrow> Throws e p
      | OtherArray \<Rightarrow> Unmodelled)"

definition addButton_click :: "page \<Rightarrow> outcome" where
  "addButton_click p =
     (let taskText = trim (taskInput p)
      in if taskText \<noteq> [] then
           (case addTask taskText True p of
              Returns p' \<Rightarrow> Returns (p'\<lparr>taskInput := []\<rparr>)
            | Throws e p' \<Rightarrow> Throws e p'
            | Unmodelled \<Rightarrow> Unmodelled)
         else Returns (alert (js ''Please enter a task.'') p))"

definition taskInput_keypress :: "jsstring \<Rightarrow> page \<Rightarrow> outcome" where
  "taskInput_keypress key p =
     (if key = js ''Enter'' then
        (let taskText = trim (taskInput p)
         in if taskText \<noteq> [] then
              (case addTask taskText True p of
                 Returns p' \<Rightarrow> Returns (p'\<lparr>taskInput := []\<rparr>)
               | Throws e p' \<Rightarrow> Throws e p'
               | Unmodelled \<Rightarrow> Unmodelled)
            else Returns (alert (js ''Please enter a task.'') p))
      else Returns p)"

text \<open>
  The \<^verbatim>\<open>DOMContentLoaded\<close> callback: \<^verbatim>\<open>loadTasks()\<close> runs first, and the two
  listeners are registered after it has returned.
\<close>

definition DOMContentLoaded :: "page \<Rightarrow> outcome" where
  "DOMContentLoaded p =
     (case loadTasks p of
        Returns p' \<Rightarrow> Returns (p'\<lparr>listening := True\<rparr>)
      | Throws e p' \<Rightarrow> Throws e p'
      | Unmodelled \<Rightarrow> Unmodelled)"

section \<open>\<^verbatim>\<open>src/unnamed/part_001\<close>\<close>

definition saveTaskToStorage :: "jsstring \<Rightarrow> page \<Rightarrow> outcome" where
  "saveTaskToStorage taskText p =
     (case tasks_array p of
        Array tasks \<Rightarrow> Returns (setItem (js ''tasks'') (JSON_stringify (tasks @ [taskText])) p)
      | Fails e \<Rightarrow> Throws e p
      | OtherArray \<Rightarrow> Unmodelled)"

definition removeTaskFromStorage :: "jsstring \<Rightarrow> page \<Rightarrow> outcome" where
  "removeTaskFromStorage taskText p =
     (case tasks_array p of
        Array tasks \<Rightarrow>
          Returns (setItem (js ''tasks'')
            (JSON_stringify (filter (\<lambda>task. task \<noteq> taskText) tasks)) p)
      | Fails e \<Rightarrow> Throws e p
      | OtherArray \<Rightarrow> Unmodelled)"

definition addTask_1 :: "jsstring \<Rightarrow> bool \<Rightarrow> page \<Rightarrow> outcome" where
  "addTask_1 taskText saveToStorage p =
     (let p1 = appendChild taskText p
      in if saveToStorage then saveTaskToStorage taskText p1 else Returns p1)"

definition removeBtn_onclick_1 :: "nat \<Rightarrow> page \<Rightarrow> outcome" where
  "removeBtn_onclick_1 i p =
     (if i < length (taskList p)
      then removeTaskFromStorage (taskList p ! i) (removeChild i p)
      else Returns p)"

definition loadTasks_1 :: "page \<Rightarrow> outcome" where
  "loadTasks_1 p =
     (case tasks_array p of
        Array tasks \<Rightarrow> forEach (\<lambda>task. addTask_1 task False) tasks p
      | Fails e \<Rightarrow> Throws e p
      | OtherArray \<Rightarrow> Unmodelled)"

definition addButton_click_1 :: "page \<Rightarrow> outcome" where
  "addButton_click_1 p =
     (let taskText = trim (taskInput p)
      in if taskText \<noteq> [] then
           (case addTask_1 taskText True p of
              Returns p' \<Rightarrow> Returns (p'\<lparr>taskInput := []\<rparr>)
            | Throws e p' \<Rightarrow> Throws e p'
            | Unmodelled \<Rightarrow> Unmodelled)
         else Returns p)"

definition taskInput_keypress_1 :: "jsstring \<Rightarrow> page \<Rightarrow> outcome" where
  "taskInput_keypress_1 key p =
     (if key = js ''Enter'' then
        (let taskText = trim (taskInput p)
         in if taskText \<noteq> [] then
              (case addTask_1 taskText True p of
                 Returns p' \<Rightarrow> Returns (p'\<lparr>taskInput := []\<rparr>)
               | Throws e p' \<Rightarrow> Throws e p'
               | Unmodelled \<Rightarrow> Unmodelled)
            else Returns p)
      else Returns p)"

definition DOMContentLoaded_1 :: "page \<Rightarrow> outcome" where
  "DOMContentLoaded_1 p =
     (case loadTasks_1 p of
        Returns p' \<Rightarrow> Returns (p'\<lparr>listening := True\<rparr>)
      | Throws e p' \<Rightarrow> Throws e p'
      | Unmodelled \<Rightarrow> Unmodelled)"

section \<open>\<^verbatim>\<open>src/unnamed/part_000\<close>\<close>

text \<open>
  \<^verbatim>\<open>showMessage\<close> appends a message box to the document body. Its fading in and out
  and its removal after three seconds are timed and are not modelled: the page records
  that the message has been shown.
\<close>

definition showMessage :: "jsstring \<Rightarrow> jsstring \<Rightarrow> page \<Rightarrow> page" where
  "showMessage message type p = p\<lparr>shown := shown p @ [MessageBox message type]\<rparr>"

definition updateLocalStorageOnRemoval :: "jsstring \<Rightarrow> page \<Rightarrow> outcome" where
  "updateLocalStorageOnRemoval taskToRemove p =
     (case tasks_array p of
        Array storedTasks \<Rightarrow>
          Returns (setItem (js ''tasks'')
            (JSON_stringify (filter (\<lambda>task. task \<noteq> taskToRemove) storedTasks)) p)
      | Fails e \<Rightarrow> Throws e p
      | OtherArray \<Rightarrow> Unmodelled)"

text \<open>
  \<^verbatim>\<open>addTask(taskTextFromParam, save = true)\<close>; the parameter is \<open>None\<close> where the call
  passes no argument. \<^verbatim>\<open>taskTextFromParam || taskInput.value.trim()\<close> takes the input
  field also when the parameter is the empty string.
\<close>

definition addTask_0 :: "jsstring option \<Rightarrow> bool \<Rightarrow> page \<Rightarrow> outcome" where
  "addTask_0 taskTextFromParam save p =
     (let taskText = or_else taskTextFromParam (trim (taskInput p))
      in if taskText = [] then Returns (showMessage (js ''Please enter a task.'') (js ''error'') p)
         else
           (let p1 = appendChild taskText p;
                p2 = p1\<lparr>taskInput := []\<rparr>
            in if save then
                 (case tasks_array p2 of
                    Array storedTasks \<Rightarrow>
                      Returns (setItem (js ''tasks'') (JSON_stringify (storedTasks @ [taskText])) p2)
                  | Fails e \<Rightarrow> Throws e p2
                  | OtherArray \<Rightarrow> Unmodelled)
               else Returns p2))"

definition removeButton_onclick_0 :: "nat \<Rightarrow> page \<Rightarrow> outcome" where
  "removeButton_onclick_0 i p =
     (if i < length (taskList p)
      then updateLocalStorageOnRemoval (taskList p ! i) (removeChild i p)
      else Returns p)"

definition loadTasks_0 :: "page \<Rightarrow> outcome" where
  "loadTasks_0 p =
     (case tasks_array p of
        Array storedTasks \<Rightarrow> forEach (\<lambda>taskText. addTask_0 (Some taskText) False) storedTasks p
      | Fails e \<Rightarrow> Throws e p
      | OtherArray \<Rightarrow> Unmodelled)"

definition addButton_click_0 :: "page \<Rightarrow> outcome" where
  "addButton_click_0 p = addTask_0 None True p"

definition taskInput_keypress_0 :: "jsstring \<Rightarrow> page \<Rightarrow> outcome" where
  "taskInput_keypress_0 key p = (if key = js ''Enter'' then addTask_0 None True p else Returns p)"

text \<open>Here the listeners are registered first and \<^verbatim>\<open>loadTasks()\<close> is the last statement.\<close>

definition DOMContentLoaded_0 :: "page \<Rightarrow> outcome" where
  "DOMContentLoaded_0 p = loadTasks_0 (p\<lparr>listening := True\<rparr>)"

section \<open>The three variants, side by side\<close>

datatype variant = Script | Part000 | Part001

fun initialize :: "variant \<Rightarrow> page \<Rightarrow> outcome" where
  "initialize Script = DOMContentLoaded"
| "initialize Part000 = DOMContentLoaded_0"
| "initialize Part001 = DOMContentLoaded_1"

fun submit_click :: "variant \<Rightarrow> page \<Rightarrow> outcome" where
  "submit_click Script = addButton_click"
| "submit_click Part000 = addButton_click_0"
| "submit_click Part001 = addButton_click_1"

fun keypress :: "variant \<Rightarrow> jsstring \<Rightarrow> page \<Rightarrow> outcome" where
  "keypress Script = taskInput_keypress"
| "keypress Part000 = taskInput_keypress_0"
| "keypress Part001 = taskInput_keypress_1"

fun remove_click :: "variant \<Rightarrow> nat \<Rightarrow> page \<Rightarrow> outcome" where
  "remove_click Script = removeBtn_onclick"
| "remove_click Part000 = removeButton_onclick_0"
| "remove_click Part001 = removeBtn_onclick_1"

fun storage_removal :: "variant \<Rightarrow> jsstring \<Rightarrow> page \<Rightarrow> outcome" where
  "storage_removal Script = removeTaskFromLocalStorage"
| "storage_removal Part000 = updateLocalStorageOnRemoval"
| "storage_removal Part001 = removeTaskFromStorage"

text \<open>
  The page as the browser hands it to the script after a load: the store and the input
  field as they are, the container supplied by the hosting document without children,
  nothing shown, no listener registered.
\<close>

definition fresh_page :: "(jsstring \<rightharpoonup> jsstring) \<Rightarrow> jsstring \<Rightarrow> page" where
  "fresh_page store input =
     \<lparr>localStorage = store, taskList = [], taskInput = input, shown = [], listening = False\<rparr>"

text \<open>The persisted sequence: the stored value read as an array of strings, if it is one.\<close>

definition persisted :: "page \<Rightarrow> jsstring list option" where
  "persisted p = (case tasks_array p of Array tasks \<Rightarrow> Some tasks | _ \<Rightarrow> None)"

text \<open>
  User events. \<open>ClickAdd t\<close> and \<open>PressEnter t\<close>: the input field holds \<open>t\<close> and the
  user clicks Add, or presses Enter in the field. \<open>ClickRemove i\<close>: the user clicks
  the Remove button of the \<open>i\<close>-th entry. An exception that leaves a handler is
  reported by the browser and the page stays as the handler left it.
\<close>

datatype event = ClickAdd jsstring | PressEnter jsstring | ClickRemove nat

fun settled :: "outcome \<Rightarrow> page option" where
  "settled (Returns p) = Some p"
| "settled (Throws e p) = Some p"
| "settled Unmodelled = None"

fun fire :: "variant \<Rightarrow> event \<Rightarrow> page \<Rightarrow> page option" where
  "fire v (ClickAdd t) p =
     (if listening p then settled (submit_click v (p\<lparr>taskInput := t\<rparr>))
      else Some (p\<lparr>taskInput := t\<rparr>))"
| "fire v (PressEnter t) p =
     (if listening p then settled (keypress v (js ''Enter'') (p\<lparr>taskInput := t\<rparr>))
      else Some (p\<lparr>taskInput := t\<rparr>))"
| "fire v (ClickRemove i) p = settled (remove_click v i p)"

fun run :: "variant \<Rightarrow> event list \<Rightarrow> page \<Rightarrow> page option" where
  "run v [] p = Some p"
| "run v (e # es) p = (case fire v e p of None \<Rightarrow> None | Some p' \<Rightarrow> run v es p')"

text \<open>A page load followed by user events.\<close>

definition session :: "variant \<Rightarrow> (jsstring \<rightharpoonup> jsstring) \<Rightarrow> jsstring \<Rightarrow> event list \<Rightarrow> page option" where
  "session v store input es =
     (case settled (initialize v (fresh_page store input)) of
        None \<Rightarrow> None
      | Some p \<Rightarrow> run v es p)"

definition feedback_text :: "feedback \<Rightarrow> jsstring" where
  "feedback_text f = (case f of Alert m \<Rightarrow> m | MessageBox m t \<Rightarrow> m)"

text \<open>What a variant shows on an empty submission.\<close>

definition validation :: "variant \<Rightarrow> feedback list" where
  "validation v =
     (case v of
        Script \<Rightarrow> [Alert (js ''Please enter a task.'')]
      | Part000 \<Rightarrow> [MessageBox (js ''Please enter a task.'') (js ''error'')]
      | Part001 \<Rightarrow> [])"

text \<open>
  Two pages with the same visible list and the same store, the listeners registered,
  and an array of strings stored.
\<close>

definition in_step :: "page \<Rightarrow> page \<Rightarrow> bool" where
  "in_step a b \<longleftrightarrow>
     taskList a = taskList b \<and> localStorage a = localStorage b \<and> listening a \<and> listening b \<and>
     persisted a \<noteq> None"

section \<open>\<^verbatim>\<open>JSON.parse\<close> reads back what \<^verbatim>\<open>JSON.stringify\<close> writes\<close>

lemma hex_value_hex_digit: "n < 16 \<Longrightarrow> hex_value (hex_digit n) = Some n"
proof -
  assume "n < 16"
  then have "n \<in> set [0..<16]" by simp
  moreover have "list_all (\<lambda>n. hex_value (hex_digit n) = Some n) [0..<16]" by code_simp
  ultimately show ?thesis unfolding list_all_iff by blast
qed

lemma hex_recompose:
  "4096 * (n div 4096) + 256 * (n div 256 mod 16) + 16 * (n div 16 mod 16) + n mod 16 = (n::nat)"
proof -
  have a: "n = 16 * (n div 16) + n mod 16" by simp
  have b: "n div 16 = 16 * (n div 256) + n div 16 mod 16"
    using div_mult2_eq[of n 16 16] by simp
  have c: "n div 256 = 16 * (n div 4096) + n div 256 mod 16"
    using div_mult2_eq[of n 256 16] by simp
  from a b c show ?thesis by linarith
qed

lemma hex4_value_hex4:
  "hex4_value (hex_digit (unat c div 4096)) (hex_digit (unat c div 256 mod 16))
     (hex_digit (unat c div 16 mod 16)) (hex_digit (unat c mod 16)) = Some c"
proof -
  have lt: "unat c < 65536" using unsigned_less[of c, where ?'a = nat] by simp
  then have d3: "unat c div 4096 < 16" by simp
  have d2: "unat c div 256 mod 16 < 16" and d1: "unat c div 16 mod 16 < 16"
    and d0: "unat c mod 16 < 16" by simp_all
  show ?thesis
    by (simp add: hex4_value_def hex_value_hex_digit[OF d3] hex_value_hex_digit[OF d2]
        hex_value_hex_digit[OF d1] hex_value_hex_digit[OF d0] hex_recompose)
qed

lemma surrogate_plain:
  "is_lead c \<or> is_trail c \<Longrightarrow> c \<noteq> 0x22 \<and> c \<noteq> 0x5C \<and> \<not> c < 0x20"
  by (auto simp: is_lead_def is_trail_def word_le_nat_alt word_less_nat_alt)

lemma control_plain: "(c::code_unit) < 0x20 \<Longrightarrow> c \<noteq> 0x22 \<and> c \<noteq> 0x5C"
  by auto
lemma lex_string_escape_unit:
  "lex_string (escape_unit c @ cs) = prepend c (lex_string cs)"
proof (cases "c < 0x20 \<or> is_lead c \<or> is_trail c")
  case True
  then have ne: "c \<noteq> 0x22" "c \<noteq> 0x5C" using surrogate_plain control_plain by blast+
  show ?thesis
    using ne True hex4_value_hex4[of c] by (simp add: escape_unit_def unescape_def hex4_def)
next
  case False
  then show ?thesis by (simp add: escape_unit_def unescape_def)
qed
lemma lex_string_quote_body:
  "lex_string (quote_body s @ 0x22 # rest) = Some (s, rest)"
proof (induction s rule: quote_body.induct)
  case 1
  show ?case by simp
next
  case (2 c)
  show ?case by (simp add: lex_string_escape_unit prepend_def del: lex_string.simps) simp
next
  case (3 c d cs)
  show ?case
  proof (cases "is_lead c \<and> is_trail d")
    case True
    then have c: "c \<noteq> 0x22" "c \<noteq> 0x5C" "\<not> c < 0x20" and d: "d \<noteq> 0x22" "d \<noteq> 0x5C" "\<not> d < 0x20"
      using surrogate_plain by blast+
    from True "3.IH"(1) have ih: "lex_string (quote_body cs @ 0x22 # rest) = Some (cs, rest)" by simp
    from True ih c d show ?thesis by (simp add: prepend_def)
  next
    case False
    with "3.IH"(2) have ih: "lex_string (quote_body (d # cs) @ 0x22 # rest) = Some (d # cs, rest)" by simp
    from False have "quote_body (c # d # cs) = escape_unit c @ quote_body (d # cs)" by auto
    then have "lex_string (quote_body (c # d # cs) @ 0x22 # rest) =
        prepend c (lex_string (quote_body (d # cs) @ 0x22 # rest))"
      by (simp only: append_assoc lex_string_escape_unit)
    with ih show ?thesis by (simp only: prepend_def option.case prod.case)
  qed
qed

lemma lex_QuoteJSONString:
  "lex (QuoteJSONString s @ rest) = cons_token (TString s) (lex rest)"
  by (simp add: QuoteJSONString_def is_json_ws_def lex_string_quote_body)

lemma lex_punct:
  "lex (0x5B # cs) = cons_token TLBracket (lex cs)"
  "lex (0x5D # cs) = cons_token TRBracket (lex cs)"
  "lex (0x2C # cs) = cons_token TComma (lex cs)"
  by (simp_all add: is_json_ws_def)

lemma lex_join_comma:
  "lex rest = Some ts \<Longrightarrow>
   lex (join_comma (map QuoteJSONString a) @ rest) = Some (comma_tokens a @ ts)"
proof (induction a rule: comma_tokens.induct)
  case 1
  then show ?case by simp
next
  case (2 x)
  then show ?case by (simp add: lex_QuoteJSONString cons_token_def)
next
  case (3 x y ys)
  from 3 have ih: "lex (join_comma (map QuoteJSONString (y # ys)) @ rest) =
      Some (comma_tokens (y # ys) @ ts)" by simp
  have "lex (join_comma (map QuoteJSONString (x # y # ys)) @ rest) =
      lex (QuoteJSONString x @ 0x2C # join_comma (map QuoteJSONString (y # ys)) @ rest)"
    by simp
  also have "\<dots> = cons_token (TString x)
      (cons_token TComma (lex (join_comma (map QuoteJSONString (y # ys)) @ rest)))"
    by (simp only: lex_QuoteJSONString lex_punct)
  also have "\<dots> = Some (comma_tokens (x # y # ys) @ ts)"
    by (simp only: ih cons_token_def comma_tokens.simps option.map append_Cons)
  finally show ?case .
qed

lemma lex_JSON_stringify:
  "lex (JSON_stringify a) = Some (TLBracket # comma_tokens a @ [TRBracket])"
proof -
  have "lex [0x5D] = Some [TRBracket]" by (simp add: lex_punct cons_token_def del: lex.simps(2))
  from lex_join_comma[OF this, of a] show ?thesis
    by (simp add: JSON_stringify_def lex_punct cons_token_def del: lex.simps(2))
qed

lemma steps_comma_tokens:
  "steps (comma_tokens (x # xs) @ [TRBracket]) ([InArray acc], m) =
     (if wants_value m then Some ([], Finished (JArr (rev acc @ map JStr (x # xs)))) else None)"
proof (induction xs arbitrary: x acc m)
  case Nil
  show ?case by (simp add: wants_value_def)
next
  case (Cons y ys)
  from Cons[of y "JStr x # acc" Value] show ?case by (simp add: wants_value_def)
qed

lemma steps_stringify:
  "steps (TLBracket # comma_tokens a @ [TRBracket]) ([], Value) =
     Some ([], Finished (JArr (map JStr a)))"
proof (cases a)
  case Nil
  then show ?thesis by (simp add: wants_value_def)
next
  case (Cons x xs)
  have "steps (TLBracket # comma_tokens a @ [TRBracket]) ([], Value) =
      steps (comma_tokens (x # xs) @ [TRBracket]) ([InArray []], FirstElement)"
    unfolding Cons by (simp add: wants_value_def)
  then show ?thesis
    unfolding Cons by (simp only: steps_comma_tokens) (simp add: wants_value_def)
qed

lemma JSON_parse_stringify: "JSON_parse (JSON_stringify a) = Inr (JArr (map JStr a))"
  by (simp add: JSON_parse_def lex_JSON_stringify steps_stringify del: steps.simps)

lemma JSON_stringify_not_empty: "JSON_stringify a \<noteq> []"
  by (simp add: JSON_stringify_def)

lemma JSON_parse_empty_array: "JSON_parse (js ''[]'') = Inr (JArr [])"
  by code_simp

lemma strings_of_map_JStr: "strings_of (map JStr a) = Some a"
  by (induction a) simp_all

section \<open>Reading and writing the store\<close>

lemma tasks_array_cong: "localStorage p = localStorage q \<Longrightarrow> tasks_array p = tasks_array q"
  by (simp add: tasks_array_def stored_tasks_def getItem_def)

lemma tasks_array_absent: "localStorage p (js ''tasks'') = None \<Longrightarrow> tasks_array p = Array []"
  by (simp add: tasks_array_def stored_tasks_def getItem_def or_else_def JSON_parse_empty_array)

lemma tasks_array_empty_string: "localStorage p (js ''tasks'') = Some [] \<Longrightarrow> tasks_array p = Array []"
  by (simp add: tasks_array_def stored_tasks_def getItem_def or_else_def JSON_parse_empty_array)

lemma tasks_array_setItem:
  "tasks_array (setItem (js ''tasks'') (JSON_stringify a) p) = Array a"
  by (simp add: tasks_array_def stored_tasks_def getItem_def setItem_def or_else_def
      JSON_stringify_not_empty JSON_parse_stringify strings_of_map_JStr)

lemma forEach_addTask:
  "forEach (\<lambda>taskText. addTask taskText False) tasks p = Returns (p\<lparr>taskList := taskList p @ tasks\<rparr>)"
  by (induction tasks arbitrary: p) (simp_all add: addTask_def appendChild_def)

lemma forEach_addTask_1:
  "forEach (\<lambda>task. addTask_1 task False) tasks p = Returns (p\<lparr>taskList := taskList p @ tasks\<rparr>)"
  by (induction tasks arbitrary: p) (simp_all add: addTask_1_def appendChild_def)

text \<open>
  In \<^verbatim>\<open>part_000\<close> a stored text that is not empty is rendered and the input field is
  cleared.
\<close>

lemma forEach_addTask_0:
  "[] \<notin> set tasks \<Longrightarrow>
   forEach (\<lambda>taskText. addTask_0 (Some taskText) False) tasks p =
     Returns (p\<lparr>taskList := taskList p @ tasks,
                taskInput := (if tasks = [] then taskInput p else [])\<rparr>)"
proof (induction tasks arbitrary: p)
  case Nil
  show ?case by simp
next
  case (Cons t ts)
  then have t: "t \<noteq> []" and ts: "[] \<notin> set ts" by auto
  have "addTask_0 (Some t) False p = Returns (p\<lparr>taskList := taskList p @ [t], taskInput := []\<rparr>)"
    using t by (simp add: addTask_0_def or_else_def appendChild_def)
  then show ?case using Cons.IH[OF ts] by simp
qed

section \<open>The handlers on a stored array of strings\<close>

lemma trim_empty_iff: "trim t = [] \<longleftrightarrow> (\<forall>c\<in>set t. is_white_space c)"
proof
  assume "trim t = []"
  then have "dropWhile is_white_space (rev (dropWhile is_white_space t)) = []"
    by (simp add: trim_def)
  then have all: "\<forall>c\<in>set (dropWhile is_white_space t). is_white_space c"
    by (simp add: dropWhile_eq_Nil_conv)
  have "dropWhile is_white_space t = []"
  proof (rule ccontr)
    assume ne: "dropWhile is_white_space t \<noteq> []"
    then have "\<not> is_white_space (hd (dropWhile is_white_space t))"
      by (rule hd_dropWhile)
    moreover from ne have "hd (dropWhile is_white_space t) \<in> set (dropWhile is_white_space t)"
      by simp
    ultimately show False using all by blast
  qed
  then show "\<forall>c\<in>set t. is_white_space c"
    by (simp add: dropWhile_eq_Nil_conv)
next
  assume "\<forall>c\<in>set t. is_white_space c"
  then show "trim t = []"
    by (auto simp: trim_def dest: set_dropWhileD)
qed

lemma keypress_Enter: "keypress v (js ''Enter'') p = submit_click v p"
  by (cases v)
    (simp_all add: taskInput_keypress_def addButton_click_def taskInput_keypress_0_def
      addButton_click_0_def taskInput_keypress_1_def addButton_click_1_def)

lemma tasks_array_appendChild [simp]: "tasks_array (appendChild li p) = tasks_array p"
  by (rule tasks_array_cong) (simp add: appendChild_def)

lemma tasks_array_removeChild [simp]: "tasks_array (removeChild i p) = tasks_array p"
  by (rule tasks_array_cong) (simp add: removeChild_def)

lemma tasks_array_taskInput [simp]: "tasks_array (p\<lparr>taskInput := x\<rparr>) = tasks_array p"
  by (rule tasks_array_cong) simp

lemma tasks_array_listening [simp]: "tasks_array (p\<lparr>listening := x\<rparr>) = tasks_array p"
  by (rule tasks_array_cong) simp

lemma tasks_array_taskList [simp]: "tasks_array (p\<lparr>taskList := x\<rparr>) = tasks_array p"
  by (rule tasks_array_cong) simp

lemma tasks_array_shown [simp]: "tasks_array (p\<lparr>shown := x\<rparr>) = tasks_array p"
  by (rule tasks_array_cong) simp

lemma tasks_array_stored:
  "tasks_array (p\<lparr>localStorage := (localStorage p)(js ''tasks'' \<mapsto> JSON_stringify a)\<rparr>) = Array a"
  using tasks_array_setItem[of a p] by (simp add: setItem_def)

lemma submit_click_added:
  "tasks_array p = Array tasks \<Longrightarrow> trim (taskInput p) \<noteq> [] \<Longrightarrow>
   submit_click v p =
     Returns (p\<lparr>localStorage :=
                  (localStorage p)(js ''tasks'' \<mapsto> JSON_stringify (tasks @ [trim (taskInput p)])),
                taskList := taskList p @ [trim (taskInput p)], taskInput := []\<rparr>)"
  by (cases v)
    (simp_all add: addButton_click_def addTask_def saveTaskToLocalStorage_def
      addButton_click_0_def addTask_0_def or_else_def
      addButton_click_1_def addTask_1_def saveTaskToStorage_def
      appendChild_def setItem_def Let_def)

lemma submit_click_blank:
  "trim (taskInput p) = [] \<Longrightarrow>
   submit_click v p =
     Returns (p\<lparr>shown := shown p @
       (case v of Script \<Rightarrow> [Alert (js ''Please enter a task.'')]
        | Part000 \<Rightarrow> [MessageBox (js ''Please enter a task.'') (js ''error'')]
        | Part001 \<Rightarrow> [])\<rparr>)"
  by (cases v)
    (simp_all add: addButton_click_def alert_def addButton_click_0_def addTask_0_def
      or_else_def showMessage_def addButton_click_1_def)

lemma storage_removal_Array:
  "tasks_array p = Array tasks \<Longrightarrow>
   storage_removal v t p =
     Returns (p\<lparr>localStorage :=
       (localStorage p)(js ''tasks'' \<mapsto> JSON_stringify (filter (\<lambda>task. task \<noteq> t) tasks))\<rparr>)"
  by (cases v)
    (simp_all add: removeTaskFromLocalStorage_def updateLocalStorageOnRemoval_def
      removeTaskFromStorage_def setItem_def)

lemma remove_click_eq:
  "remove_click v i p =
     (if i < length (taskList p) then storage_removal v (taskList p ! i) (removeChild i p)
      else Returns p)"
  by (cases v) (simp_all add: removeBtn_onclick_def removeButton_onclick_0_def removeBtn_onclick_1_def)

lemma persisted_Some: "persisted p = Some tasks \<longleftrightarrow> tasks_array p = Array tasks"
  by (simp add: persisted_def split: receiver.splits)

lemma tasks_array_fails:
  "localStorage p (js ''tasks'') = Some raw \<Longrightarrow> raw \<noteq> [] \<Longrightarrow> JSON_parse raw = Inl e \<Longrightarrow>
   tasks_array p = Fails e"
  by (simp add: tasks_array_def stored_tasks_def getItem_def or_else_def)

lemma forEach_addTask_0_returns:
  "\<exists>q. forEach (\<lambda>taskText. addTask_0 (Some taskText) False) tasks p = Returns q \<and>
       localStorage q = localStorage p \<and> listening q = listening p"
proof (induction tasks arbitrary: p)
  case Nil
  show ?case by simp
next
  case (Cons t ts)
  have "\<exists>p1. addTask_0 (Some t) False p = Returns p1 \<and>
      localStorage p1 = localStorage p \<and> listening p1 = listening p"
    by (simp add: addTask_0_def showMessage_def appendChild_def Let_def)
  then obtain p1 where p1: "addTask_0 (Some t) False p = Returns p1"
    and s1: "localStorage p1 = localStorage p" and l1: "listening p1 = listening p"
    by blast
  from Cons[of p1] p1 s1 l1 show ?case by auto
qed

section \<open>Concrete stores\<close>

lemma persisted_stored_text:
  "store (js ''tasks'') = Some raw \<Longrightarrow> raw \<noteq> [] \<Longrightarrow> JSON_parse raw = Inr (JArr (map JStr S)) \<Longrightarrow>
   persisted (fresh_page store input) = Some S"
  by (simp add: persisted_def tasks_array_def stored_tasks_def getItem_def or_else_def
      fresh_page_def strings_of_map_JStr)

lemma parse_A_B: "JSON_parse (js ''[\"A\",\"B\"]'') = Inr (JArr (map JStr [js ''A'', js ''B'']))"
  by code_simp

lemma parse_A_B_C:
  "JSON_parse (js ''[\"A\",\"B\",\"C\"]'') = Inr (JArr (map JStr [js ''A'', js ''B'', js ''C'']))"
  by code_simp

lemma parse_blank_task: "JSON_parse (js ''[\"\"]'') = Inr (JArr (map JStr [[]]))"
  by code_simp

lemma parse_broken: "JSON_parse (js ''broken'') = Inl SyntaxError"
  by code_simp

lemma parse_nothing: "JSON_parse [] = Inl SyntaxError"
  by code_simp

section \<open>Initialization\<close>

lemma loadTasks_Array:
  "tasks_array p = Array tasks \<Longrightarrow> loadTasks p = Returns (p\<lparr>taskList := taskList p @ tasks\<rparr>)"
  by (simp add: loadTasks_def forEach_addTask)

lemma loadTasks_1_Array:
  "tasks_array p = Array tasks \<Longrightarrow> loadTasks_1 p = Returns (p\<lparr>taskList := taskList p @ tasks\<rparr>)"
  by (simp add: loadTasks_1_def forEach_addTask_1)

lemma loadTasks_0_Array:
  "tasks_array p = Array tasks \<Longrightarrow> [] \<notin> set tasks \<Longrightarrow>
   loadTasks_0 p = Returns (p\<lparr>taskList := taskList p @ tasks,
                              taskInput := (if tasks = [] then taskInput p else [])\<rparr>)"
  by (simp add: loadTasks_0_def forEach_addTask_0)

lemma tasks_array_fresh_listening:
  "tasks_array (fresh_page store input\<lparr>listening := True\<rparr>) = tasks_array (fresh_page store input)"
  by (rule tasks_array_cong) simp

text \<open>
  C8. When no value is stored under the key \<^verbatim>\<open>tasks\<close>, initialization (in each of the
  three variants) returns without throwing, has rendered no entry, and has left the
  store as it was.
\<close>

theorem missing_key_renders_nothing:
  "store (js ''tasks'') = None \<Longrightarrow>
   \<exists>p. initialize v (fresh_page store input) = Returns p \<and> taskList p = [] \<and>
       localStorage p = store"
proof -
  assume "store (js ''tasks'') = None"
  then have a: "tasks_array (fresh_page store input) = Array []"
    by (simp add: tasks_array_absent fresh_page_def)
  show ?thesis
  proof (cases v)
    case Script
    then show ?thesis
      by (simp add: DOMContentLoaded_def loadTasks_Array[OF a]) (simp add: fresh_page_def)
  next
    case Part000
    have "tasks_array (fresh_page store input\<lparr>listening := True\<rparr>) = Array []"
      using a by (simp only: tasks_array_fresh_listening)
    from loadTasks_0_Array[OF this] Part000 show ?thesis
      by (simp add: DOMContentLoaded_0_def) (simp add: fresh_page_def)
  next
    case Part001
    then show ?thesis
      by (simp add: DOMContentLoaded_1_def loadTasks_1_Array[OF a]) (simp add: fresh_page_def)
  qed
qed

theorem missing_key_renders_nothing_witness:
  "(Map.empty :: jsstring \<rightharpoonup> jsstring) (js ''tasks'') = None \<and>
   (\<exists>p. initialize Part000 (fresh_page Map.empty (js ''draft'')) = Returns p \<and> taskList p = [] \<and>
        localStorage p = Map.empty)"
  using missing_key_renders_nothing[of Map.empty Part000 "js ''draft''"] by simp

section \<open>Removal\<close>

text \<open>
  C2. For every persisted sequence \<open>S\<close> and every text \<open>t\<close>, the storage-removal
  operation of each variant leaves the persisted sequence \<open>S\<close> without every occurrence
  of \<open>t\<close> (the other texts in their order), and does not touch the list. A click on
  the Remove button of the \<open>i\<close>-th entry detaches that one entry, the list keeping
  every other entry, and removes from the store every occurrence of its text.
\<close>

theorem removal_by_value:
  "persisted p = Some S \<Longrightarrow>
   (\<exists>p'. storage_removal v t p = Returns p' \<and>
         persisted p' = Some (filter (\<lambda>task. task \<noteq> t) S) \<and> taskList p' = taskList p) \<and>
   (i < length (taskList p) \<longrightarrow>
     (\<exists>q. remove_click v i p = Returns q \<and>
          taskList q = take i (taskList p) @ drop (Suc i) (taskList p) \<and>
          persisted q = Some (filter (\<lambda>task. task \<noteq> taskList p ! i) S)))"
proof -
  assume "persisted p = Some S"
  then have a: "tasks_array p = Array S" by (simp only: persisted_Some)
  have first: "\<exists>p'. storage_removal v t p = Returns p' \<and>
      persisted p' = Some (filter (\<lambda>task. task \<noteq> t) S) \<and> taskList p' = taskList p"
    by (simp add: storage_removal_Array[OF a] persisted_Some tasks_array_stored)
  have second: "\<exists>q. remove_click v i p = Returns q \<and>
      taskList q = take i (taskList p) @ drop (Suc i) (taskList p) \<and>
      persisted q = Some (filter (\<lambda>task. task \<noteq> taskList p ! i) S)"
    if i: "i < length (taskList p)"
  proof -
    have b: "tasks_array (removeChild i p) = Array S" using a by simp
    have "remove_click v i p = storage_removal v (taskList p ! i) (removeChild i p)"
      using i by (simp add: remove_click_eq)
    then show ?thesis
      using tasks_array_stored[of "removeChild i p"]
      by (simp add: storage_removal_Array[OF b] persisted_Some) (simp add: removeChild_def)
  qed
  from first second show ?thesis by blast
qed

theorem removal_by_value_witness:
  "persisted (fresh_page [js ''tasks'' \<mapsto> js ''[\"X\",\"Y\",\"X\"]''] []\<lparr>taskList := [js ''X'', js ''Y'', js ''X'']\<rparr>)
     = Some [js ''X'', js ''Y'', js ''X''] \<and>
   (\<exists>q. remove_click Script 0
          (fresh_page [js ''tasks'' \<mapsto> js ''[\"X\",\"Y\",\"X\"]''] []\<lparr>taskList := [js ''X'', js ''Y'', js ''X'']\<rparr>)
          = Returns q \<and>
        taskList q = [js ''Y'', js ''X''] \<and> persisted q = Some [js ''Y''])"
proof -
  let ?p = "fresh_page [js ''tasks'' \<mapsto> js ''[\"X\",\"Y\",\"X\"]''] []\<lparr>taskList := [js ''X'', js ''Y'', js ''X'']\<rparr>"
  have parse: "JSON_parse (js ''[\"X\",\"Y\",\"X\"]'') = Inr (JArr [JStr (js ''X''), JStr (js ''Y''), JStr (js ''X'')])"
    by code_simp
  have ne: "js ''[\"X\",\"Y\",\"X\"]'' \<noteq> []" by (simp add: js_def)
  have h: "persisted ?p = Some [js ''X'', js ''Y'', js ''X'']"
    by (simp add: persisted_def tasks_array_def stored_tasks_def getItem_def or_else_def
        fresh_page_def ne parse)
  have len: "0 < length (taskList ?p)" by simp
  have neq: "js ''Y'' \<noteq> js ''X''" by (simp add: js_def)
  from removal_by_value[OF h, of Script "js ''X''" 0] len neq
  show ?thesis using h by simp
qed

text \<open>
  C10. The storage-removal operation of each variant is idempotent and does nothing to
  a sequence without the text: for a persisted sequence \<open>S\<close> and a text \<open>t\<close>, removing
  \<open>t\<close> a second time leaves the page that the first removal has left, and when \<open>t\<close>
  does not occur in \<open>S\<close> the persisted sequence after the removal is still \<open>S\<close>.
\<close>

theorem storage_removal_idempotent:
  "persisted p = Some S \<Longrightarrow>
   \<exists>p1. storage_removal v t p = Returns p1 \<and> storage_removal v t p1 = Returns p1 \<and>
        (t \<notin> set S \<longrightarrow> persisted p1 = Some S)"
proof -
  assume "persisted p = Some S"
  then have a: "tasks_array p = Array S" by (simp only: persisted_Some)
  let ?S' = "filter (\<lambda>task. task \<noteq> t) S"
  let ?p1 = "p\<lparr>localStorage := (localStorage p)(js ''tasks'' \<mapsto> JSON_stringify ?S')\<rparr>"
  have one: "storage_removal v t p = Returns ?p1" by (rule storage_removal_Array[OF a])
  have b: "tasks_array ?p1 = Array ?S'" by (rule tasks_array_stored)
  have two: "storage_removal v t ?p1 = Returns ?p1"
    by (simp add: storage_removal_Array[OF b])
  have three: "persisted ?p1 = Some S" if "t \<notin> set S"
  proof -
    from that have "?S' = S" by (simp add: filter_id_conv) blast
    with b show ?thesis by (simp only: persisted_Some)
  qed
  from one two three show ?thesis by blast
qed

theorem storage_removal_idempotent_witness:
  "persisted (fresh_page [js ''tasks'' \<mapsto> js ''[\"A\",\"B\"]''] []) = Some [js ''A'', js ''B''] \<and>
   (\<exists>p1. storage_removal Part000 (js ''C'') (fresh_page [js ''tasks'' \<mapsto> js ''[\"A\",\"B\"]''] [])
           = Returns p1 \<and>
         storage_removal Part000 (js ''C'') p1 = Returns p1 \<and>
         persisted p1 = Some [js ''A'', js ''B''])"
proof -
  have ne: "js ''[\"A\",\"B\"]'' \<noteq> []" by (simp add: js_def)
  have h: "persisted (fresh_page [js ''tasks'' \<mapsto> js ''[\"A\",\"B\"]''] []) = Some [js ''A'', js ''B'']"
    by (rule persisted_stored_text[OF _ ne parse_A_B]) simp
  have "js ''C'' \<notin> set [js ''A'', js ''B'']" by (simp add: js_def)
  with storage_removal_idempotent[OF h, of Part000 "js ''C''"] h show ?thesis by blast
qed

section \<open>Submitting nothing\<close>

text \<open>
  C4 as stated fails in \<^verbatim>\<open>part_001\<close>, whose handlers have no \<^verbatim>\<open>else\<close> branch: with
  three spaces in the input field the click handler returns the page as it was, and
  nothing has been shown.
\<close>

theorem blank_submission_counterexample:
  "submit_click Part001 (fresh_page Map.empty (js ''   '')\<lparr>listening := True\<rparr>) =
     Returns (fresh_page Map.empty (js ''   '')\<lparr>listening := True\<rparr>) \<and>
   shown (fresh_page Map.empty (js ''   '')\<lparr>listening := True\<rparr>) = []"
proof -
  have "trim (js ''   '') = []" by code_simp
  then show ?thesis by (simp add: addButton_click_1_def fresh_page_def)
qed

text \<open>
  C4, amended. When the input field holds only white space (or nothing), the submit
  handler of each variant, on a click and on Enter alike, returns with the list and
  the store as they were; \<^verbatim>\<open>script.js\<close> has shown the alert "Please enter a task.",
  \<^verbatim>\<open>part_000\<close> the same text in an error message box, and \<^verbatim>\<open>part_001\<close> nothing.
\<close>

theorem blank_submission:
  "\<forall>c\<in>set (taskInput p). is_white_space c \<Longrightarrow>
   \<exists>p'. submit_click v p = Returns p' \<and> keypress v (js ''Enter'') p = Returns p' \<and>
        taskList p' = taskList p \<and> localStorage p' = localStorage p \<and>
        (v = Script \<longrightarrow> shown p' = shown p @ [Alert (js ''Please enter a task.'')]) \<and>
        (v = Part000 \<longrightarrow>
           shown p' = shown p @ [MessageBox (js ''Please enter a task.'') (js ''error'')]) \<and>
        (v = Part001 \<longrightarrow> shown p' = shown p)"
proof -
  assume "\<forall>c\<in>set (taskInput p). is_white_space c"
  then have "trim (taskInput p) = []" by (simp only: trim_empty_iff)
  from submit_click_blank[OF this, of v] show ?thesis
    by (cases v) (simp_all add: keypress_Enter del: submit_click.simps keypress.simps)
qed

theorem blank_submission_witness:
  "(\<exists>p'. submit_click Script (fresh_page Map.empty (js ''   '')) = Returns p' \<and>
         taskList p' = [] \<and> localStorage p' = Map.empty \<and>
         shown p' = [Alert (js ''Please enter a task.'')]) \<and>
   (\<exists>p'. submit_click Part000 (fresh_page Map.empty (js ''   '')) = Returns p' \<and>
         taskList p' = [] \<and> localStorage p' = Map.empty \<and>
         shown p' = [MessageBox (js ''Please enter a task.'') (js ''error'')]) \<and>
   (\<exists>p'. submit_click Part001 (fresh_page Map.empty (js ''   '')) = Returns p' \<and>
         taskList p' = [] \<and> localStorage p' = Map.empty \<and> shown p' = [])"
proof -
  let ?p = "fresh_page Map.empty (js ''   '')"
  have h: "\<forall>c\<in>set (taskInput ?p). is_white_space c"
    by (simp add: fresh_page_def js_def is_white_space_def)
  have f: "taskList ?p = []" "localStorage ?p = Map.empty" "shown ?p = []"
    by (simp_all add: fresh_page_def)
  from blank_submission[OF h, of Script] blank_submission[OF h, of Part000]
    blank_submission[OF h, of Part001]
  show ?thesis unfolding f by auto
qed

section \<open>A stored value that is not JSON\<close>

text \<open>
  C9 as stated fails for the empty string: it is present under the key and is not
  valid JSON, yet \<^verbatim>\<open>localStorage.getItem('tasks') || '[]'\<close> replaces it by \<^verbatim>\<open>'[]'\<close>, and
  initialization returns with nothing rendered.
\<close>

theorem malformed_store_counterexample:
  "JSON_parse [] = Inl SyntaxError \<and>
   initialize Script (fresh_page [js ''tasks'' \<mapsto> []] []) =
     Returns (fresh_page [js ''tasks'' \<mapsto> []] []\<lparr>listening := True\<rparr>)"
proof -
  have "tasks_array (fresh_page [js ''tasks'' \<mapsto> []] []) = Array []"
    by (rule tasks_array_empty_string) (simp add: fresh_page_def)
  then show ?thesis
    by (simp add: parse_nothing DOMContentLoaded_def loadTasks_Array)
qed

text \<open>
  C9, amended. When the value stored under \<^verbatim>\<open>tasks\<close> is not empty and is not valid
  JSON, initialization in each variant throws the SyntaxError of the parse, with
  nothing rendered and the store as it was. In \<^verbatim>\<open>script.js\<close> and \<^verbatim>\<open>part_001\<close> the
  listeners have not been registered by then; in \<^verbatim>\<open>part_000\<close> they have.
\<close>

theorem malformed_store_throws:
  "store (js ''tasks'') = Some raw \<Longrightarrow> raw \<noteq> [] \<Longrightarrow> JSON_parse raw = Inl SyntaxError \<Longrightarrow>
   \<exists>p. initialize v (fresh_page store input) = Throws SyntaxError p \<and>
       taskList p = [] \<and> localStorage p = store \<and> (listening p \<longleftrightarrow> v = Part000)"
proof -
  assume s: "store (js ''tasks'') = Some raw" and ne: "raw \<noteq> []"
    and bad: "JSON_parse raw = Inl SyntaxError"
  have a: "tasks_array (fresh_page store input) = Fails SyntaxError"
    by (rule tasks_array_fails[OF _ ne bad]) (simp add: fresh_page_def s)
  show ?thesis
  proof (cases v)
    case Script
    then show ?thesis by (simp add: DOMContentLoaded_def loadTasks_def a) (simp add: fresh_page_def)
  next
    case Part000
    then show ?thesis by (simp add: DOMContentLoaded_0_def loadTasks_0_def a) (simp add: fresh_page_def)
  next
    case Part001
    then show ?thesis by (simp add: DOMContentLoaded_1_def loadTasks_1_def a) (simp add: fresh_page_def)
  qed
qed

theorem malformed_store_throws_witness:
  "[js ''tasks'' \<mapsto> js ''broken''] (js ''tasks'') = Some (js ''broken'') \<and> js ''broken'' \<noteq> [] \<and>
   JSON_parse (js ''broken'') = Inl SyntaxError \<and>
   (\<exists>p. initialize Part001 (fresh_page [js ''tasks'' \<mapsto> js ''broken''] []) = Throws SyntaxError p \<and>
        taskList p = [] \<and> \<not> listening p)"
proof -
  have s: "[js ''tasks'' \<mapsto> js ''broken''] (js ''tasks'') = Some (js ''broken'')" by simp
  have ne: "js ''broken'' \<noteq> []" by (simp add: js_def)
  from malformed_store_throws[of "[js ''tasks'' \<mapsto> js ''broken'']" "js ''broken''" Part001 "[]"]
    s ne parse_broken
  show ?thesis by auto
qed

section \<open>Reloading\<close>

text \<open>
  A task text is not empty (after trimming), and no variant stores an empty one
  (\<open>session_keeps_texts\<close> below). Were the store to hold one all the same,
  \<^verbatim>\<open>part_000\<close> would not render it: \<^verbatim>\<open>taskTextFromParam || taskInput.value.trim()\<close>
  takes the input field in its place, and with the field empty the error message is
  shown. This is outside the sequences of task texts.
\<close>

lemma part_000_skips_empty_text:
  "persisted (fresh_page [js ''tasks'' \<mapsto> js ''[\"\"]''] []) = Some [[]] \<and>
   initialize Part000 (fresh_page [js ''tasks'' \<mapsto> js ''[\"\"]''] []) =
     Returns (fresh_page [js ''tasks'' \<mapsto> js ''[\"\"]''] []
       \<lparr>shown := [MessageBox (js ''Please enter a task.'') (js ''error'')], listening := True\<rparr>)"
proof -
  let ?p = "fresh_page [js ''tasks'' \<mapsto> js ''[\"\"]''] []"
  have ne: "js ''[\"\"]'' \<noteq> []" by (simp add: js_def)
  have h: "persisted ?p = Some [[]]"
    by (rule persisted_stored_text[OF _ ne parse_blank_task]) simp
  then have a: "tasks_array ?p = Array [[]]"
    by (simp only: persisted_Some)
  have t: "trim [] = []" by (simp add: trim_def)
  have "initialize Part000 ?p =
      Returns (?p\<lparr>shown := [MessageBox (js ''Please enter a task.'') (js ''error'')], listening := True\<rparr>)"
    by (simp add: DOMContentLoaded_0_def loadTasks_0_def a addTask_0_def or_else_def)
      (simp add: fresh_page_def showMessage_def t)
  with h show ?thesis by simp
qed

text \<open>
  C3. For every persisted sequence \<open>S\<close>, initialization returns, has rendered
  exactly the entries of \<open>S\<close> in the order of \<open>S\<close>, and has left the store as it
  was. In \<^verbatim>\<open>script.js\<close> and \<^verbatim>\<open>part_001\<close> this holds for every stored array of strings
  \<open>S\<close>; in \<^verbatim>\<open>part_000\<close> the list is \<open>S\<close> for every sequence of task texts (none
  of them empty), and the store is left as it was for every \<open>S\<close>.
\<close>

theorem reload_renders_persisted:
  "persisted (fresh_page store input) = Some S \<Longrightarrow>
   \<exists>p. initialize v (fresh_page store input) = Returns p \<and> localStorage p = store \<and>
       ((v = Part000 \<longrightarrow> [] \<notin> set S) \<longrightarrow> taskList p = S)"
proof -
  assume "persisted (fresh_page store input) = Some S"
  then have a: "tasks_array (fresh_page store input) = Array S" by (simp only: persisted_Some)
  then have b: "tasks_array (fresh_page store input\<lparr>listening := True\<rparr>) = Array S" by simp
  show ?thesis
  proof (cases v)
    case Script
    then show ?thesis
      by (simp add: DOMContentLoaded_def loadTasks_Array[OF a]) (simp add: fresh_page_def)
  next
    case Part001
    then show ?thesis
      by (simp add: DOMContentLoaded_1_def loadTasks_1_Array[OF a]) (simp add: fresh_page_def)
  next
    case Part000
    let ?p0 = "fresh_page store input\<lparr>listening := True\<rparr>"
    from forEach_addTask_0_returns[of S ?p0]
    obtain q where fe: "forEach (\<lambda>taskText. addTask_0 (Some taskText) False) S ?p0 = Returns q"
      and sq0: "localStorage q = localStorage ?p0"
      by blast
    from fe have q: "loadTasks_0 ?p0 = Returns q" by (simp add: loadTasks_0_def a)
    from sq0 have sq: "localStorage q = store" by (simp add: fresh_page_def)
    have "taskList q = S" if "[] \<notin> set S"
      using loadTasks_0_Array[OF b that] q by (auto simp: fresh_page_def)
    with Part000 q sq show ?thesis by (simp add: DOMContentLoaded_0_def)
  qed
qed

theorem reload_renders_persisted_witness:
  "persisted (fresh_page [js ''tasks'' \<mapsto> js ''[\"A\",\"B\"]''] []) = Some [js ''A'', js ''B''] \<and>
   [] \<notin> set [js ''A'', js ''B''] \<and>
   (\<exists>p. initialize Part000 (fresh_page [js ''tasks'' \<mapsto> js ''[\"A\",\"B\"]''] []) = Returns p \<and>
        localStorage p = [js ''tasks'' \<mapsto> js ''[\"A\",\"B\"]''] \<and>
        taskList p = [js ''A'', js ''B''])"
proof -
  have ne: "js ''[\"A\",\"B\"]'' \<noteq> []" by (simp add: js_def)
  have h: "persisted (fresh_page [js ''tasks'' \<mapsto> js ''[\"A\",\"B\"]''] []) = Some [js ''A'', js ''B'']"
    by (rule persisted_stored_text[OF _ ne parse_A_B]) simp
  have n: "[] \<notin> set [js ''A'', js ''B'']" by (simp add: js_def)
  from reload_renders_persisted[OF h, of Part000] h n show ?thesis by auto
qed

section \<open>Adding, then reloading\<close>

lemma forEach_append:
  "forEach f (xs @ ys) p =
     (case forEach f xs p of Returns p' \<Rightarrow> forEach f ys p' | Throws e p' \<Rightarrow> Throws e p'
      | Unmodelled \<Rightarrow> Unmodelled)"
  by (induction xs arbitrary: p) (simp_all split: outcome.splits)

lemma initialize_Array:
  "tasks_array (fresh_page store input) = Array S \<Longrightarrow> v = Part000 \<longrightarrow> [] \<notin> set S \<Longrightarrow>
   \<exists>q. initialize v (fresh_page store input) = Returns q \<and> taskList q = S \<and>
       localStorage q = store \<and> listening q \<and> shown q = []"
proof -
  assume a: "tasks_array (fresh_page store input) = Array S" and ne: "v = Part000 \<longrightarrow> [] \<notin> set S"
  show ?thesis
  proof (cases v)
    case Script
    then show ?thesis
      by (simp add: DOMContentLoaded_def loadTasks_Array[OF a]) (simp add: fresh_page_def)
  next
    case Part001
    then show ?thesis
      by (simp add: DOMContentLoaded_1_def loadTasks_1_Array[OF a]) (simp add: fresh_page_def)
  next
    case Part000
    with ne have n: "[] \<notin> set S" by simp
    have b: "tasks_array (fresh_page store input\<lparr>listening := True\<rparr>) = Array S"
      using a by simp
    from Part000 show ?thesis
      by (simp add: DOMContentLoaded_0_def loadTasks_0_Array[OF b n]) (simp add: fresh_page_def)
  qed
qed

lemma initialize_last:
  "tasks_array (fresh_page store input) = Array (S @ [t]) \<Longrightarrow> t \<noteq> [] \<Longrightarrow>
   \<exists>q. initialize v (fresh_page store input) = Returns q \<and> taskList q \<noteq> [] \<and>
       last (taskList q) = t"
proof -
  assume a: "tasks_array (fresh_page store input) = Array (S @ [t])" and t: "t \<noteq> []"
  show ?thesis
  proof (cases "v = Part000")
    case False
    with initialize_Array[OF a, of v] show ?thesis by auto
  next
    case True
    let ?p0 = "fresh_page store input\<lparr>listening := True\<rparr>"
    from forEach_addTask_0_returns[of S ?p0]
    obtain q where fe: "forEach (\<lambda>taskText. addTask_0 (Some taskText) False) S ?p0 = Returns q"
      by blast
    have one: "addTask_0 (Some t) False q = Returns (q\<lparr>taskList := taskList q @ [t], taskInput := []\<rparr>)"
      using t by (simp add: addTask_0_def or_else_def appendChild_def)
    have b: "tasks_array ?p0 = Array (S @ [t])" using a by simp
    have "loadTasks_0 ?p0 = Returns (q\<lparr>taskList := taskList q @ [t], taskInput := []\<rparr>)"
      by (simp add: loadTasks_0_def b forEach_append fe one del: tasks_array_listening)
    with True show ?thesis by (simp add: DOMContentLoaded_0_def)
  qed
qed

lemma trim_Buy_milk: "trim (js ''Buy milk'') = js ''Buy milk''"
  by code_simp

text \<open>
  C6. For every persisted sequence \<open>S\<close>, submitting "Buy milk" (in each variant)
  returns with the persisted sequence \<open>S\<close> followed by "Buy milk", and an
  initialization of a fresh page from that store returns with a list that is not empty
  and whose last entry is "Buy milk".
\<close>

theorem add_then_reload:
  "persisted p = Some S \<Longrightarrow>
   \<exists>p'. submit_click v (p\<lparr>taskInput := js ''Buy milk''\<rparr>) = Returns p' \<and>
        persisted p' = Some (S @ [js ''Buy milk'']) \<and>
        (\<exists>q. initialize v (fresh_page (localStorage p') input) = Returns q \<and>
             taskList q \<noteq> [] \<and> last (taskList q) = js ''Buy milk'')"
proof -
  assume "persisted p = Some S"
  then have a: "tasks_array (p\<lparr>taskInput := js ''Buy milk''\<rparr>) = Array S"
    by (simp add: persisted_Some)
  have ne: "js ''Buy milk'' \<noteq> []" by (simp add: js_def)
  let ?store = "(localStorage p)(js ''tasks'' \<mapsto> JSON_stringify (S @ [js ''Buy milk'']))"
  let ?p' = "p\<lparr>localStorage := ?store, taskList := taskList p @ [js ''Buy milk''], taskInput := []\<rparr>"
  have click: "submit_click v (p\<lparr>taskInput := js ''Buy milk''\<rparr>) = Returns ?p'"
    using submit_click_added[OF a, of v] ne by (simp add: trim_Buy_milk)
  have "tasks_array ?p' = tasks_array (p\<lparr>localStorage := ?store\<rparr>)"
    by (rule tasks_array_cong) simp
  then have stored: "tasks_array ?p' = Array (S @ [js ''Buy milk''])"
    by (simp only: tasks_array_stored)
  have "tasks_array (fresh_page (localStorage ?p') input) = tasks_array ?p'"
    by (rule tasks_array_cong) (simp add: fresh_page_def)
  with stored have "tasks_array (fresh_page (localStorage ?p') input) = Array (S @ [js ''Buy milk''])"
    by simp
  from initialize_last[OF this ne, of v] click stored show ?thesis
    by (simp only: persisted_Some) blast
qed

theorem add_then_reload_witness:
  "persisted (fresh_page [js ''tasks'' \<mapsto> js ''[\"A\",\"B\"]''] []) = Some [js ''A'', js ''B''] \<and>
   (\<exists>p'. submit_click Script (fresh_page [js ''tasks'' \<mapsto> js ''[\"A\",\"B\"]''] []
            \<lparr>taskInput := js ''Buy milk''\<rparr>) = Returns p' \<and>
         persisted p' = Some [js ''A'', js ''B'', js ''Buy milk''] \<and>
         (\<exists>q. initialize Script (fresh_page (localStorage p') []) = Returns q \<and>
              taskList q \<noteq> [] \<and> last (taskList q) = js ''Buy milk''))"
proof -
  have ne: "js ''[\"A\",\"B\"]'' \<noteq> []" by (simp add: js_def)
  have h: "persisted (fresh_page [js ''tasks'' \<mapsto> js ''[\"A\",\"B\"]''] []) = Some [js ''A'', js ''B'']"
    by (rule persisted_stored_text[OF _ ne parse_A_B]) simp
  from add_then_reload[OF h, of Script "[]"] h show ?thesis by simp
qed

section \<open>Removing an entry\<close>

text \<open>
  C7. From a store whose persisted sequence is A, B, C, initialization (in each
  variant) renders the three entries A, B, C; a click on the Remove button of the
  entry B then returns with the visible list A, C and the persisted sequence A, C,
  in which B does not occur.
\<close>

theorem remove_middle_entry:
  "persisted (fresh_page store input) = Some [js ''A'', js ''B'', js ''C''] \<Longrightarrow>
   \<exists>p q. initialize v (fresh_page store input) = Returns p \<and>
         taskList p = [js ''A'', js ''B'', js ''C''] \<and>
         remove_click v 1 p = Returns q \<and>
         taskList q = [js ''A'', js ''C''] \<and>
         persisted q = Some [js ''A'', js ''C''] \<and> js ''B'' \<notin> set [js ''A'', js ''C'']"
proof -
  assume "persisted (fresh_page store input) = Some [js ''A'', js ''B'', js ''C'']"
  then have a: "tasks_array (fresh_page store input) = Array [js ''A'', js ''B'', js ''C'']"
    by (simp only: persisted_Some)
  have d: "js ''A'' \<noteq> js ''B''" "js ''C'' \<noteq> js ''B''" "js ''A'' \<noteq> []" "js ''B'' \<noteq> []" "js ''C'' \<noteq> []"
    by (simp_all add: js_def)
  from initialize_Array[OF a, of v] d
  obtain p where init: "initialize v (fresh_page store input) = Returns p"
    and tl: "taskList p = [js ''A'', js ''B'', js ''C'']" and st: "localStorage p = store"
    by auto
  have "tasks_array p = tasks_array (fresh_page store input)"
    by (rule tasks_array_cong) (simp add: st fresh_page_def)
  with a have b: "tasks_array (removeChild 1 p) = Array [js ''A'', js ''B'', js ''C'']" by simp
  let ?q = "removeChild 1 p\<lparr>localStorage :=
      (localStorage (removeChild 1 p))(js ''tasks'' \<mapsto> JSON_stringify [js ''A'', js ''C''])\<rparr>"
  have rm: "remove_click v 1 p = Returns ?q"
    using storage_removal_Array[OF b, of v "js ''B''"] d tl by (simp add: remove_click_eq)
  have "tasks_array ?q = Array [js ''A'', js ''C'']" by (rule tasks_array_stored)
  then have pq: "persisted ?q = Some [js ''A'', js ''C'']" by (simp only: persisted_Some)
  have tq: "taskList ?q = [js ''A'', js ''C'']" using tl by (simp add: removeChild_def)
  from init tl rm tq pq d show ?thesis by auto
qed

theorem remove_middle_entry_witness:
  "persisted (fresh_page [js ''tasks'' \<mapsto> js ''[\"A\",\"B\",\"C\"]''] []) = Some [js ''A'', js ''B'', js ''C''] \<and>
   (\<exists>p q. initialize Part001 (fresh_page [js ''tasks'' \<mapsto> js ''[\"A\",\"B\",\"C\"]''] []) = Returns p \<and>
         taskList p = [js ''A'', js ''B'', js ''C''] \<and>
         remove_click Part001 1 p = Returns q \<and>
         taskList q = [js ''A'', js ''C''] \<and>
         persisted q = Some [js ''A'', js ''C''])"
proof -
  have ne: "js ''[\"A\",\"B\",\"C\"]'' \<noteq> []" by (simp add: js_def)
  have h: "persisted (fresh_page [js ''tasks'' \<mapsto> js ''[\"A\",\"B\",\"C\"]''] [])
      = Some [js ''A'', js ''B'', js ''C'']"
    by (rule persisted_stored_text[OF _ ne parse_A_B_C]) simp
  from remove_middle_entry[OF h, of Part001] h show ?thesis by blast
qed

section \<open>The three variants compared\<close>

lemma submit_click_Array:
  "tasks_array p = Array tasks \<Longrightarrow>
   submit_click v p =
     Returns (if trim (taskInput p) \<noteq> [] then
                p\<lparr>localStorage :=
                    (localStorage p)(js ''tasks'' \<mapsto> JSON_stringify (tasks @ [trim (taskInput p)])),
                  taskList := taskList p @ [trim (taskInput p)], taskInput := []\<rparr>
              else p\<lparr>shown := shown p @ validation v\<rparr>)"
proof (cases "trim (taskInput p) = []")
  case True
  from submit_click_blank[OF True, of v] True show ?thesis by (simp add: validation_def)
next
  case False
  assume "tasks_array p = Array tasks"
  from submit_click_added[OF this False, of v] False show ?thesis by simp
qed

lemma fire_submit:
  "tasks_array p = Array tasks \<Longrightarrow> listening p \<Longrightarrow> e = ClickAdd t \<or> e = PressEnter t \<Longrightarrow>
   fire v e p =
     Some (if trim t \<noteq> [] then
             p\<lparr>localStorage := (localStorage p)(js ''tasks'' \<mapsto> JSON_stringify (tasks @ [trim t])),
               taskList := taskList p @ [trim t], taskInput := []\<rparr>
           else p\<lparr>taskInput := t, shown := shown p @ validation v\<rparr>)"
proof -
  assume a: "tasks_array p = Array tasks" and l: "listening p"
    and e: "e = ClickAdd t \<or> e = PressEnter t"
  have b: "tasks_array (p\<lparr>taskInput := t\<rparr>) = Array tasks" using a by simp
  from e l have "fire v e p = settled (submit_click v (p\<lparr>taskInput := t\<rparr>))"
    by (auto simp: keypress_Enter)
  then show ?thesis by (simp add: submit_click_Array[OF b])
qed

lemma fire_remove:
  "tasks_array p = Array tasks \<Longrightarrow>
   fire v (ClickRemove i) p =
     Some (if i < length (taskList p) then
             p\<lparr>localStorage := (localStorage p)(js ''tasks'' \<mapsto>
                  JSON_stringify (filter (\<lambda>task. task \<noteq> taskList p ! i) tasks)),
               taskList := take i (taskList p) @ drop (Suc i) (taskList p)\<rparr>
           else p)"
proof -
  assume a: "tasks_array p = Array tasks"
  then have b: "tasks_array (removeChild i p) = Array tasks" by simp
  show ?thesis
    by (simp add: remove_click_eq storage_removal_Array[OF b]) (simp add: removeChild_def)
qed

lemma tasks_array_store_any:
  "tasks_array (p\<lparr>localStorage := m(js ''tasks'' \<mapsto> JSON_stringify x)\<rparr>) = Array x"
  by (simp add: tasks_array_def stored_tasks_def getItem_def or_else_def
      JSON_stringify_not_empty JSON_parse_stringify strings_of_map_JStr)

lemma persisted_cong: "localStorage p = localStorage q \<Longrightarrow> persisted p = persisted q"
  by (simp add: persisted_def tasks_array_cong[of p q])

lemma fire_in_step:
  assumes "in_step a b"
  shows "\<exists>a' b'. fire v e a = Some a' \<and> fire w e b = Some b' \<and> in_step a' b' \<and>
           (\<exists>n. shown a' = shown a @ concat (replicate n (validation v)) \<and>
                shown b' = shown b @ concat (replicate n (validation w)))"
proof -
  from assms obtain tasks where a: "tasks_array a = Array tasks"
    by (auto simp: in_step_def persisted_def split: receiver.splits)
  from assms have eq: "taskList a = taskList b" "localStorage a = localStorage b"
    and l: "listening a" "listening b"
    by (simp_all add: in_step_def)
  from a eq have b: "tasks_array b = Array tasks" by (simp add: tasks_array_cong[of b a])
  show ?thesis
  proof (cases "\<exists>i. e = ClickRemove i")
    case True
    then obtain i where e: "e = ClickRemove i" by blast
    let ?n = "\<lambda>p. if i < length (taskList p) then
             p\<lparr>localStorage := (localStorage p)(js ''tasks'' \<mapsto>
                  JSON_stringify (filter (\<lambda>task. task \<noteq> taskList p ! i) tasks)),
               taskList := take i (taskList p) @ drop (Suc i) (taskList p)\<rparr>
           else p"
    have fa: "fire v e a = Some (?n a)" unfolding e by (rule fire_remove[OF a])
    have fb: "fire w e b = Some (?n b)" unfolding e by (rule fire_remove[OF b])
    have s: "in_step (?n a) (?n b)"
      using assms eq by (simp add: in_step_def persisted_def tasks_array_store_any)
    have sh: "shown (?n a) = shown a" "shown (?n b) = shown b" by simp_all
    have "\<exists>n. shown (?n a) = shown a @ concat (replicate n (validation v)) \<and>
        shown (?n b) = shown b @ concat (replicate n (validation w))"
      unfolding sh by (rule exI[of _ 0]) simp
    with fa fb s show ?thesis by blast
  next
    case False
    then obtain t where e: "e = ClickAdd t \<or> e = PressEnter t" by (cases e) auto
    let ?n = "\<lambda>u p. if trim t \<noteq> [] then
             p\<lparr>localStorage := (localStorage p)(js ''tasks'' \<mapsto> JSON_stringify (tasks @ [trim t])),
               taskList := taskList p @ [trim t], taskInput := []\<rparr>
           else p\<lparr>taskInput := t, shown := shown p @ validation u\<rparr>"
    have fa: "fire v e a = Some (?n v a)" by (rule fire_submit[OF a l(1) e])
    have fb: "fire w e b = Some (?n w b)" by (rule fire_submit[OF b l(2) e])
    have s: "in_step (?n v a) (?n w b)"
      using assms eq by (simp add: in_step_def persisted_def tasks_array_store_any)
    have "\<exists>n. shown (?n v a) = shown a @ concat (replicate n (validation v)) \<and>
        shown (?n w b) = shown b @ concat (replicate n (validation w))"
    proof (cases "trim t = []")
      case True
      then show ?thesis by (intro exI[of _ 1]) simp
    next
      case False
      then show ?thesis by (intro exI[of _ 0]) simp
    qed
    with fa fb s show ?thesis by blast
  qed
qed

lemma run_in_step:
  "in_step a b \<Longrightarrow>
   \<exists>a' b'. run v es a = Some a' \<and> run w es b = Some b' \<and> in_step a' b' \<and>
     (\<exists>n. shown a' = shown a @ concat (replicate n (validation v)) \<and>
          shown b' = shown b @ concat (replicate n (validation w)))"
proof (induction es arbitrary: a b)
  case Nil
  then show ?case by (auto intro: exI[of _ 0])
next
  case (Cons e es)
  from fire_in_step[OF Cons.prems, of v e w]
  obtain a1 b1 n where f: "fire v e a = Some a1" "fire w e b = Some b1" and s: "in_step a1 b1"
    and n: "shown a1 = shown a @ concat (replicate n (validation v))"
      "shown b1 = shown b @ concat (replicate n (validation w))"
    by blast
  from Cons.IH[OF s]
  obtain a' b' m where r: "run v es a1 = Some a'" "run w es b1 = Some b'" and s': "in_step a' b'"
    and m: "shown a' = shown a1 @ concat (replicate m (validation v))"
      "shown b' = shown b1 @ concat (replicate m (validation w))"
    by blast
  have "shown a' = shown a @ concat (replicate (n + m) (validation v))"
    "shown b' = shown b @ concat (replicate (n + m) (validation w))"
    using n m by (simp_all add: replicate_add)
  with f r s' show ?case by auto
qed

text \<open>
  C5 as stated fails in three ways. On an empty submission \<^verbatim>\<open>script.js\<close> shows its
  alert and \<^verbatim>\<open>part_001\<close> shows nothing. From the stored array of one empty string
  \<^verbatim>\<open>script.js\<close> renders one (empty) entry and \<^verbatim>\<open>part_000\<close> none. From a stored value
  that is not JSON, \<^verbatim>\<open>script.js\<close> throws before it registers its listeners, so a later
  submission of "x" does nothing, while \<^verbatim>\<open>part_000\<close> has registered them and renders
  "x" (before the save throws).
\<close>

theorem variants_agree_counterexample:
  "map_option shown (session Script Map.empty [] [ClickAdd (js ''  '')]) =
     Some [Alert (js ''Please enter a task.'')] \<and>
   map_option shown (session Part001 Map.empty [] [ClickAdd (js ''  '')]) = Some [] \<and>
   map_option taskList (session Script [js ''tasks'' \<mapsto> js ''[\"\"]''] [] []) = Some [[]] \<and>
   map_option taskList (session Part000 [js ''tasks'' \<mapsto> js ''[\"\"]''] [] []) = Some [] \<and>
   map_option taskList (session Script [js ''tasks'' \<mapsto> js ''broken''] [] [ClickAdd (js ''x'')]) =
     Some [] \<and>
   map_option taskList (session Part000 [js ''tasks'' \<mapsto> js ''broken''] [] [ClickAdd (js ''x'')]) =
     Some [js ''x'']"
  by code_simp

text \<open>
  C5, amended. From every initial store whose persisted sequence exists (the key
  absent, or the empty string, or a JSON array of strings) and has no empty text, and
  for every sequence of submissions (by click or Enter, with any input text) and
  removals, the three variants end with the same visible list and the same store;
  \<^verbatim>\<open>script.js\<close> and \<^verbatim>\<open>part_000\<close> have shown the same validation texts (as alerts and as
  message boxes), and \<^verbatim>\<open>part_001\<close> has shown nothing.
\<close>

theorem variants_agree:
  "persisted (fresh_page store input) = Some S \<Longrightarrow> [] \<notin> set S \<Longrightarrow>
   \<exists>a b c. session Script store input es = Some a \<and> session Part000 store input es = Some b \<and>
     session Part001 store input es = Some c \<and>
     taskList a = taskList b \<and> taskList b = taskList c \<and>
     localStorage a = localStorage b \<and> localStorage b = localStorage c \<and>
     map feedback_text (shown a) = map feedback_text (shown b) \<and> shown c = []"
proof -
  assume "persisted (fresh_page store input) = Some S" and ne: "[] \<notin> set S"
  then have arr: "tasks_array (fresh_page store input) = Array S" by (simp only: persisted_Some)
  have init: "\<exists>q. initialize v (fresh_page store input) = Returns q \<and> taskList q = S \<and>
      localStorage q = store \<and> listening q \<and> shown q = []" for v
    using initialize_Array[OF arr, of v] ne by simp
  from init[of Script] obtain qs where qs: "initialize Script (fresh_page store input) = Returns qs"
    "taskList qs = S" "localStorage qs = store" "listening qs" "shown qs = []" by blast
  from init[of Part000] obtain q0 where q0: "initialize Part000 (fresh_page store input) = Returns q0"
    "taskList q0 = S" "localStorage q0 = store" "listening q0" "shown q0 = []" by blast
  from init[of Part001] obtain q1 where q1: "initialize Part001 (fresh_page store input) = Returns q1"
    "taskList q1 = S" "localStorage q1 = store" "listening q1" "shown q1 = []" by blast
  have "tasks_array qs = tasks_array (fresh_page store input)"
    by (rule tasks_array_cong) (simp add: qs fresh_page_def)
  with arr have ps: "persisted qs \<noteq> None" by (simp add: persisted_def)
  from qs q0 ps have s0: "in_step qs q0" by (simp add: in_step_def)
  from qs q1 ps have s1: "in_step qs q1" by (simp add: in_step_def)
  from run_in_step[OF s0, of Script es Part000]
  obtain a b n where ab: "run Script es qs = Some a" "run Part000 es q0 = Some b" "in_step a b"
    and sh0: "shown a = shown qs @ concat (replicate n (validation Script))"
      "shown b = shown q0 @ concat (replicate n (validation Part000))"
    by blast
  from run_in_step[OF s1, of Script es Part001] ab(1)
  obtain c m where c: "run Part001 es q1 = Some c" "in_step a c"
    and sh1: "shown c = shown q1 @ concat (replicate m (validation Part001))"
    by auto
  have texts: "map feedback_text (validation Script) = map feedback_text (validation Part000)"
    by (simp add: validation_def feedback_text_def)
  have "map feedback_text (shown a) = map feedback_text (shown b)"
    unfolding sh0 qs q0 by (simp add: map_concat texts)
  moreover have "shown c = []" unfolding sh1 q1 by (simp add: validation_def)
  moreover have "session Script store input es = Some a" unfolding session_def qs(1) by (simp add: ab)
  moreover have "session Part000 store input es = Some b" unfolding session_def q0(1) by (simp add: ab)
  moreover have "session Part001 store input es = Some c" unfolding session_def q1(1) by (simp add: c)
  ultimately show ?thesis using ab(3) c(2) by (auto simp: in_step_def)
qed

theorem variants_agree_witness:
  "persisted (fresh_page [js ''tasks'' \<mapsto> js ''[\"A\",\"B\"]''] []) = Some [js ''A'', js ''B''] \<and>
   [] \<notin> set [js ''A'', js ''B''] \<and>
   (\<exists>a b c.
     session Script [js ''tasks'' \<mapsto> js ''[\"A\",\"B\"]''] []
       [ClickAdd (js '' C ''), PressEnter [], ClickRemove 0] = Some a \<and>
     session Part000 [js ''tasks'' \<mapsto> js ''[\"A\",\"B\"]''] []
       [ClickAdd (js '' C ''), PressEnter [], ClickRemove 0] = Some b \<and>
     session Part001 [js ''tasks'' \<mapsto> js ''[\"A\",\"B\"]''] []
       [ClickAdd (js '' C ''), PressEnter [], ClickRemove 0] = Some c \<and>
     taskList a = taskList b \<and> taskList b = taskList c \<and>
     localStorage a = localStorage b \<and> localStorage b = localStorage c \<and>
     map feedback_text (shown a) = map feedback_text (shown b) \<and> shown c = [])"
proof -
  have ne: "js ''[\"A\",\"B\"]'' \<noteq> []" by (simp add: js_def)
  have h: "persisted (fresh_page [js ''tasks'' \<mapsto> js ''[\"A\",\"B\"]''] []) = Some [js ''A'', js ''B'']"
    by (rule persisted_stored_text[OF _ ne parse_A_B]) simp
  have n: "[] \<notin> set [js ''A'', js ''B'']" by (simp add: js_def)
  from variants_agree[OF h n, of "[ClickAdd (js '' C ''), PressEnter [], ClickRemove 0]"] h n
  show ?thesis by blast
qed

section \<open>List and store at rest\<close>

lemma filter_unique_nth:
  "i < length xs \<Longrightarrow> \<forall>j<length xs. xs ! j = xs ! i \<longrightarrow> j = i \<Longrightarrow>
   filter (\<lambda>x. x \<noteq> xs ! i) xs = take i xs @ drop (Suc i) xs"
proof -
  assume i: "i < length xs" and u: "\<forall>j<length xs. xs ! j = xs ! i \<longrightarrow> j = i"
  have before: "\<forall>x\<in>set (take i xs). x \<noteq> xs ! i"
  proof
    fix x assume "x \<in> set (take i xs)"
    then obtain j where j: "j < length (take i xs)" "take i xs ! j = x"
      by (auto simp: in_set_conv_nth)
    with i have ji: "j < i" and xj: "xs ! j = x" by simp_all
    from ji i have "j < length xs" "j \<noteq> i" by simp_all
    with u xj show "x \<noteq> xs ! i" by blast
  qed
  have after: "\<forall>x\<in>set (drop (Suc i) xs). x \<noteq> xs ! i"
  proof
    fix x assume "x \<in> set (drop (Suc i) xs)"
    then obtain j where j: "j < length (drop (Suc i) xs)" "drop (Suc i) xs ! j = x"
      by (auto simp: in_set_conv_nth)
    with i have lt: "Suc i + j < length xs" and xj: "xs ! (Suc i + j) = x" by simp_all
    have "Suc i + j \<noteq> i" by simp
    with u lt xj show "x \<noteq> xs ! i" by blast
  qed
  have "filter (\<lambda>x. x \<noteq> xs ! i) xs =
      filter (\<lambda>x. x \<noteq> xs ! i) (take i xs @ xs ! i # drop (Suc i) xs)"
    using id_take_nth_drop[OF i] by simp
  also have "\<dots> = take i xs @ drop (Suc i) xs"
    using before after by (simp add: filter_id_conv)
  finally show ?thesis .
qed

text \<open>
  List and store stay in step through a submission, and through the removal of an
  entry whose text no other entry has.
\<close>

lemma submit_keeps_list_and_store:
  "persisted p = Some (taskList p) \<Longrightarrow> listening p \<Longrightarrow> e = ClickAdd t \<or> e = PressEnter t \<Longrightarrow>
   \<exists>q. fire v e p = Some q \<and> persisted q = Some (taskList q)"
proof -
  assume "persisted p = Some (taskList p)" and l: "listening p"
    and e: "e = ClickAdd t \<or> e = PressEnter t"
  then have a: "tasks_array p = Array (taskList p)" by (simp only: persisted_Some)
  show ?thesis
    unfolding fire_submit[OF a l e] using a
    by (simp add: persisted_Some tasks_array_store_any)
qed

lemma remove_keeps_list_and_store:
  "persisted p = Some (taskList p) \<Longrightarrow>
   \<forall>j<length (taskList p). taskList p ! j = taskList p ! i \<longrightarrow> j = i \<Longrightarrow>
   \<exists>q. fire v (ClickRemove i) p = Some q \<and> persisted q = Some (taskList q)"
proof -
  assume "persisted p = Some (taskList p)"
    and u: "\<forall>j<length (taskList p). taskList p ! j = taskList p ! i \<longrightarrow> j = i"
  then have a: "tasks_array p = Array (taskList p)" by (simp only: persisted_Some)
  show ?thesis
  proof (cases "i < length (taskList p)")
    case True
    from filter_unique_nth[OF True u] True show ?thesis
      unfolding fire_remove[OF a] by (simp add: persisted_Some tasks_array_store_any)
  next
    case False
    with a show ?thesis unfolding fire_remove[OF a] by (simp add: persisted_Some)
  qed
qed

text \<open>
  C1 fails on the code. From an empty store, the user adds the task X twice and
  removes the first of the two entries: the list then shows one X, and the persisted
  sequence is empty, since the storage removal drops every task of that text while
  \<^verbatim>\<open>removeChild\<close> detaches one element. The three variants do the same.
\<close>

theorem duplicate_texts_desynchronise:
  "map_option taskList
     (session v Map.empty [] [ClickAdd (js ''X''), ClickAdd (js ''X''), ClickRemove 0]) =
     Some [js ''X''] \<and>
   Option.bind
     (session v Map.empty [] [ClickAdd (js ''X''), ClickAdd (js ''X''), ClickRemove 0])
     persisted = Some []"
proof (cases v)
  case Script
  show ?thesis unfolding Script by code_simp
next
  case Part000
  show ?thesis unfolding Part000 by code_simp
next
  case Part001
  show ?thesis unfolding Part001 by code_simp
qed

section \<open>Task texts in the store\<close>

lemma fire_keeps_texts:
  "persisted p = Some S \<Longrightarrow> [] \<notin> set S \<Longrightarrow>
   \<exists>q S'. fire v e p = Some q \<and> persisted q = Some S' \<and> [] \<notin> set S' \<and>
     listening q = listening p"
proof -
  assume h: "persisted p = Some S" and ne: "[] \<notin> set S"
  then have a: "tasks_array p = Array S" by (simp only: persisted_Some)
  show ?thesis
  proof (cases "\<exists>i. e = ClickRemove i")
    case True
    then obtain i where e: "e = ClickRemove i" by blast
    from ne have "[] \<notin> set (filter (\<lambda>task. task \<noteq> taskList p ! i) S)" by simp
    with a ne show ?thesis
      unfolding e fire_remove[OF a] by (simp add: persisted_Some tasks_array_store_any)
  next
    case False
    then obtain t where e: "e = ClickAdd t \<or> e = PressEnter t" by (cases e) auto
    show ?thesis
    proof (cases "listening p")
      case True
      from a ne show ?thesis
        unfolding fire_submit[OF a True e] using True
        by (simp add: persisted_Some tasks_array_store_any)
    next
      case False
      with e have "fire v e p = Some (p\<lparr>taskInput := t\<rparr>)" by auto
      with a ne False show ?thesis by (simp add: persisted_Some)
    qed
  qed
qed

lemma run_keeps_texts:
  "persisted p = Some S \<Longrightarrow> [] \<notin> set S \<Longrightarrow>
   \<exists>q S'. run v es p = Some q \<and> persisted q = Some S' \<and> [] \<notin> set S'"
proof (induction es arbitrary: p S)
  case Nil
  then show ?case by simp
next
  case (Cons e es)
  from fire_keeps_texts[OF Cons.prems, of v e]
  obtain q S' where f: "fire v e p = Some q" and q: "persisted q = Some S'" "[] \<notin> set S'"
    by blast
  from Cons.IH[OF q] f show ?case by simp
qed

text \<open>
  No variant writes an empty text: from a store whose persisted sequence has none,
  every session ends with a persisted sequence that has none.
\<close>

lemma session_keeps_texts:
  "persisted (fresh_page store input) = Some S \<Longrightarrow> [] \<notin> set S \<Longrightarrow>
   \<exists>q S'. session v store input es = Some q \<and> persisted q = Some S' \<and> [] \<notin> set S'"
proof -
  assume h: "persisted (fresh_page store input) = Some S" and ne: "[] \<notin> set S"
  then have a: "tasks_array (fresh_page store input) = Array S" by (simp only: persisted_Some)
  from initialize_Array[OF a, of v] ne
  obtain p where init: "initialize v (fresh_page store input) = Returns p"
    and st: "localStorage p = store" by auto
  have "persisted p = persisted (fresh_page store input)"
    by (rule persisted_cong) (simp add: st fresh_page_def)
  with h have "persisted p = Some S" by simp
  from run_keeps_texts[OF this ne, of v es] show ?thesis
    unfolding session_def init by simp
qed

end
